theory Spec2Isabelle
  imports Main
begin

section \<open>Python strings\<close>

text \<open>
  A Python \<open>str\<close> is modelled as a \<open>string\<close> (a list of \<open>char\<close>); one \<open>char\<close> stands for
  one code point below 256. The backslash and the NUL character cannot be written inside
  a string literal, so they get names.
\<close>

abbreviation bs :: char where
  "bs \<equiv> CHR 0x5C"

abbreviation nul :: char where
  "nul \<equiv> CHR 0x00"

text \<open>
  \<open>text.replace(old, new)\<close>: every non-overlapping occurrence of \<open>old\<close>, found from the
  left, is replaced by \<open>new\<close>. An empty \<open>old\<close> matches before every character and at the
  end of the string.
\<close>

fun str_replace :: "string \<Rightarrow> string \<Rightarrow> string \<Rightarrow> string" where
  "str_replace old new [] = (if old = [] then new else [])"
| "str_replace old new (c # cs) =
     (if old = [] then new @ c # str_replace old new cs
      else if take (length old) (c # cs) = old
        then new @ str_replace old new (drop (length old - 1) cs)
      else c # str_replace old new cs)"

text \<open>\<open>str(n)\<close> for a non-negative integer: its decimal digits.\<close>

fun str_of_nat :: "nat \<Rightarrow> string" where
  "str_of_nat n =
     (if n < 10 then [char_of (48 + n)]
      else str_of_nat (n div 10) @ [char_of (48 + n mod 10)])"

declare str_of_nat.simps [simp del]

text \<open>\<open>enumerate(xs)\<close>: the elements paired with their indices, counted from \<open>i\<close>.\<close>

fun enumerate_from :: "nat \<Rightarrow> 'a list \<Rightarrow> (nat \<times> 'a) list" where
  "enumerate_from i [] = []"
| "enumerate_from i (x # xs) = (i, x) # enumerate_from (Suc i) xs"

section \<open>Regular expressions of the \<open>re\<close> module\<close>

text \<open>
  The five patterns of \<open>docs/tex/__init__.py\<close> are sequences of single-character
  matchers, each taken once or under a quantifier, and capturing groups. An \<open>atom\<close>
  matches one character: a literal, a negated one-character class \<open>[^c]\<close> (which also
  matches a newline), the dot (anything but a newline) and the class \<open>[a-zA-Z]\<close>.
\<close>

datatype atom = Lit char | NotLit char | Dot | Letter

definition is_letter :: "char \<Rightarrow> bool" where
  "is_letter c =
     (let n = (of_char c :: nat) in (97 \<le> n \<and> n \<le> 122) \<or> (65 \<le> n \<and> n \<le> 90))"

fun atom_ok :: "atom \<Rightarrow> char \<Rightarrow> bool" where
  "atom_ok (Lit a) c = (c = a)"
| "atom_ok (NotLit a) c = (c \<noteq> a)"
| "atom_ok Dot c = (c \<noteq> CHR 0x0A)"
| "atom_ok Letter c = is_letter c"

text \<open>
  A \<open>piece\<close> is an atom taken once, a greedy \<open>+\<close> or \<open>*\<close>, a lazy \<open>+?\<close> or \<open>*?\<close>, or the
  opening or closing parenthesis of a group (\<open>Mark\<close>). A pattern is a list of pieces.
\<close>

datatype piece = One atom | Plus atom | Star atom | LazyPlus atom | LazyStar atom | Mark

type_synonym regex = "piece list"

text \<open>
  \<open>rmatch p s\<close> matches the pattern \<open>p\<close> at the start of \<open>s\<close> by backtracking, as the
  \<open>re\<close> module does: a greedy quantifier first tries to take one more character and
  gives it back when the rest of the pattern fails; a lazy one first tries the rest of
  the pattern and takes one more character when that fails. The result is the text after
  the match and, for every parenthesis passed, the text that was left at that point.
\<close>

fun rmatch :: "regex \<Rightarrow> string \<Rightarrow> (string list \<times> string) option" where
  "rmatch [] s = Some ([], s)"
| "rmatch (Mark # p) s =
     (case rmatch p s of None \<Rightarrow> None | Some (ms, e) \<Rightarrow> Some (s # ms, e))"
| "rmatch (One a # p) [] = None"
| "rmatch (One a # p) (c # cs) = (if atom_ok a c then rmatch p cs else None)"
| "rmatch (Plus a # p) [] = None"
| "rmatch (Plus a # p) (c # cs) = (if atom_ok a c then rmatch (Star a # p) cs else None)"
| "rmatch (Star a # p) [] = rmatch p []"
| "rmatch (Star a # p) (c # cs) =
     (if atom_ok a c
      then (case rmatch (Star a # p) cs of
              Some r \<Rightarrow> Some r
            | None \<Rightarrow> rmatch p (c # cs))
      else rmatch p (c # cs))"
| "rmatch (LazyPlus a # p) [] = None"
| "rmatch (LazyPlus a # p) (c # cs) =
     (if atom_ok a c then rmatch (LazyStar a # p) cs else None)"
| "rmatch (LazyStar a # p) [] = rmatch p []"
| "rmatch (LazyStar a # p) (c # cs) =
     (case rmatch p (c # cs) of
        Some r \<Rightarrow> Some r
      | None \<Rightarrow> (if atom_ok a c then rmatch (LazyStar a # p) cs else None))"

text \<open>
  A match object, as the list \<open>[group(0), group(1), ...]\<close>. \<open>spans\<close> pairs the opening and
  closing marks; the text of a group is what was consumed between its two marks.
\<close>

type_synonym match = "string list"

fun spans :: "string list \<Rightarrow> string list" where
  "spans (a # b # ms) = take (length a - length b) a # spans ms"
| "spans ms = []"

definition mk_match :: "string \<Rightarrow> string list \<Rightarrow> string \<Rightarrow> match" where
  "mk_match s ms e = take (length s - length e) s # spans ms"

text \<open>
  The scan of \<open>re.sub\<close>: the leftmost non-overlapping matches, each search starting where
  the previous match ended. A character at which the pattern does not match is copied.
  None of the patterns of this program matches the empty string (each starts with a
  literal character, see \<open>patterns_move_forward\<close>), so a match always moves forward; the
  scan treats an empty match as no match.
\<close>

datatype tok = Ch char | Mat match

fun re_scan :: "regex \<Rightarrow> string \<Rightarrow> tok list" where
  "re_scan p [] = []"
| "re_scan p (c # cs) =
     (case rmatch p (c # cs) of
        None \<Rightarrow> Ch c # re_scan p cs
      | Some (ms, e) \<Rightarrow>
          if length e \<le> length cs
          then Mat (mk_match (c # cs) ms e) # re_scan p e
          else Ch c # re_scan p cs)"

text \<open>\<open>re.sub(pattern, repl, text)\<close> with a replacement that does not touch any state.\<close>

fun sub_toks :: "(match \<Rightarrow> string) \<Rightarrow> tok list \<Rightarrow> string" where
  "sub_toks repl [] = []"
| "sub_toks repl (Ch c # ts) = c # sub_toks repl ts"
| "sub_toks repl (Mat m # ts) = repl m @ sub_toks repl ts"

definition re_sub :: "regex \<Rightarrow> (match \<Rightarrow> string) \<Rightarrow> string \<Rightarrow> string" where
  "re_sub p repl text = sub_toks repl (re_scan p text)"

text \<open>
  \<open>re.sub(pattern, callback, text)\<close> with a callback that appends to a list of the
  enclosing function: the callback is called once per match, from left to right, and the
  list is passed along.
\<close>

fun sub_toks_with :: "(match \<Rightarrow> 's \<Rightarrow> string \<times> 's) \<Rightarrow> tok list \<Rightarrow> 's \<Rightarrow> string \<times> 's" where
  "sub_toks_with cb [] st = ([], st)"
| "sub_toks_with cb (Ch c # ts) st =
     (case sub_toks_with cb ts st of (out, st') \<Rightarrow> (c # out, st'))"
| "sub_toks_with cb (Mat m # ts) st =
     (case cb m st of (r, st1) \<Rightarrow>
        (case sub_toks_with cb ts st1 of (out, st') \<Rightarrow> (r @ out, st')))"

definition re_sub_with ::
  "regex \<Rightarrow> (match \<Rightarrow> 's \<Rightarrow> string \<times> 's) \<Rightarrow> string \<Rightarrow> 's \<Rightarrow> string \<times> 's" where
  "re_sub_with p cb text st = sub_toks_with cb (re_scan p text) st"

section \<open>The text normalizer (\<open>docs/tex/__init__.py\<close>)\<close>

definition escape_latex :: "string \<Rightarrow> string" where
  "escape_latex text =
     str_replace ''%'' [bs, CHR ''%'']
       (str_replace ''&'' [bs, CHR ''&'']
         (str_replace ''_'' [bs, CHR ''_'']
           (str_replace ''$'' [bs, CHR ''$'']
             (str_replace ''#'' [bs, CHR ''#''] text))))"

text \<open>The patterns \<open>`(.+?)`\<close>, \<open>\*\*(.+?)\*\*\<close> and \<open>\*(.+?)\*\<close>.\<close>

definition tt_re :: regex where
  "tt_re = [One (Lit (CHR 0x60)), Mark, LazyPlus Dot, Mark, One (Lit (CHR 0x60))]"

definition bold_re :: regex where
  "bold_re = [One (Lit CHR ''*''), One (Lit CHR ''*''), Mark, LazyPlus Dot, Mark,
              One (Lit CHR ''*''), One (Lit CHR ''*'')]"

definition italic_re :: regex where
  "italic_re = [One (Lit CHR ''*''), Mark, LazyPlus Dot, Mark, One (Lit CHR ''*'')]"

text \<open>The replacement template \<open>\\name{\1}\<close>: a backslash, the name, group 1 in braces.\<close>

definition wrap_group :: "string \<Rightarrow> match \<Rightarrow> string" where
  "wrap_group name m = bs # name @ ''{'' @ m ! 1 @ ''}''"

definition apply_formatting :: "string \<Rightarrow> string" where
  "apply_formatting text =
     re_sub italic_re (wrap_group ''textit'')
       (re_sub bold_re (wrap_group ''textbf'')
         (re_sub tt_re (wrap_group ''texttt'') text))"

text \<open>The patterns \<open>\[([^\]]+)\]\(([^)]+)\)\<close> and \<open>\\[a-zA-Z]+\{[^}]*\}\<close>.\<close>

definition link_re :: regex where
  "link_re = [One (Lit CHR ''[''), Mark, Plus (NotLit CHR '']''), Mark, One (Lit CHR '']''),
              One (Lit CHR ''(''), Mark, Plus (NotLit CHR '')''), Mark, One (Lit CHR '')'')]"

definition cmd_re :: regex where
  "cmd_re = [One (Lit bs), Plus Letter, One (Lit CHR ''{''), Star (NotLit CHR ''}''),
             One (Lit CHR ''}'')]"

text \<open>The placeholder \<open>\x00TAGn\x00\<close>.\<close>

definition sentinel :: "string \<Rightarrow> nat \<Rightarrow> string" where
  "sentinel tag n = nul # tag @ str_of_nat n @ [nul]"

definition capture_link ::
  "match \<Rightarrow> (string \<times> string) list \<Rightarrow> string \<times> (string \<times> string) list" where
  "capture_link m links =
     (let links' = links @ [(m ! 1, m ! 2)]
      in (sentinel ''LINK'' (length links' - 1), links'))"

definition capture_cmd :: "match \<Rightarrow> string list \<Rightarrow> string \<times> string list" where
  "capture_cmd m latex_cmds =
     (let latex_cmds' = latex_cmds @ [m ! 0]
      in (sentinel ''CMD'' (length latex_cmds' - 1), latex_cmds'))"

definition href :: "string \<Rightarrow> string \<Rightarrow> string" where
  "href url escaped_display = bs # ''href{'' @ url @ ''}{'' @ escaped_display @ ''}''"

fun restore_cmds :: "(nat \<times> string) list \<Rightarrow> string \<Rightarrow> string" where
  "restore_cmds [] text = text"
| "restore_cmds ((idx, cmd) # rest) text =
     restore_cmds rest (str_replace (sentinel ''CMD'' idx) cmd text)"

fun restore_links :: "(nat \<times> string \<times> string) list \<Rightarrow> string \<Rightarrow> string" where
  "restore_links [] text = text"
| "restore_links ((idx, display, url) # rest) text =
     (let escaped_display = apply_formatting (escape_latex display)
      in restore_links rest (str_replace (sentinel ''LINK'' idx) (href url escaped_display) text))"

definition normalize_text :: "string \<Rightarrow> string" where
  "normalize_text text =
     (case re_sub_with link_re capture_link text [] of (text1, links) \<Rightarrow>
        (case re_sub_with cmd_re capture_cmd text1 [] of (text2, latex_cmds) \<Rightarrow>
           restore_links (enumerate_from 0 links)
             (restore_cmds (enumerate_from 0 latex_cmds)
               (apply_formatting (escape_latex text2)))))"

text \<open>
  Whether the first stage of \<open>normalize_text\<close> captures a link in a text, that is, whether
  its list \<open>links\<close> ends up non-empty.
\<close>

definition contains_link :: "string \<Rightarrow> bool" where
  "contains_link text = (snd (re_sub_with link_re capture_link text []) \<noteq> [])"

section \<open>The content schema (\<open>docs/tex/models/document_content.py\<close>)\<close>

text \<open>
  The document sink: \<open>doc.append(NoEscape(s))\<close> appends the raw fragment \<open>s\<close> to the body
  of the document, so the body is the list of the fragments appended so far.
\<close>

type_synonym doc = "string list"

definition doc_append :: "doc \<Rightarrow> string \<Rightarrow> doc" where
  "doc_append doc s = doc @ [s]"

text \<open>
  \<open>s.rstrip()\<close> removes the trailing whitespace of \<open>s\<close>. Below code point 256 the
  whitespace characters of Python are 9 to 13, 28 to 32, 133 and 160.
\<close>

definition isspace :: "char \<Rightarrow> bool" where
  "isspace c =
     (let n = (of_char c :: nat)
      in (9 \<le> n \<and> n \<le> 13) \<or> (28 \<le> n \<and> n \<le> 32) \<or> n = 133 \<or> n = 160)"

definition rstrip :: "string \<Rightarrow> string" where
  "rstrip s = rev (dropWhile isspace (rev s))"

text \<open>
  An item of a list block is a string or a mapping. The values of the mapping are taken
  to have the types the code uses them at: \<open>parts\<close> is a list of mappings from strings to
  strings, \<open>font_size\<close>, \<open>text\<close> and \<open>code\<close> are strings. An absent key is \<open>None\<close>.
\<close>

type_synonym part = "string \<rightharpoonup> string"

datatype list_item =
    ItemStr string
  | ItemDict (parts: "part list option") (font_size: "string option")
             (item_text: "string option") (item_code: "string option")

text \<open>\<open>d.get(key, default)\<close> on the value found under a key.\<close>

fun get_or :: "'a option \<Rightarrow> 'a \<Rightarrow> 'a" where
  "get_or None d = d"
| "get_or (Some v) d = v"

text \<open>The fragment emitted for a code body: a \<open>Verbatim\<close> environment at the font size.\<close>

definition block_with_body :: "string \<Rightarrow> string \<Rightarrow> string" where
  "block_with_body fsize body =
     bs # ''begin{Verbatim}[fontsize='' @ bs # fsize @ '']'' @ [CHR 0x0A]
       @ body @ [CHR 0x0A]
       @ bs # ''end{Verbatim}'' @ [CHR 0x0A]"

definition verbatim_block :: "string \<Rightarrow> string \<Rightarrow> string" where
  "verbatim_block fsize code = block_with_body fsize (rstrip code)"

text \<open>
  The loop over the parts of a structured item, with its flag \<open>first\<close>. A part with a
  \<open>text\<close> key is a text part, also when it has a \<open>code\<close> key; a part with neither key
  emits nothing and leaves the flag as it is.
\<close>

fun execute_parts :: "string \<Rightarrow> part list \<Rightarrow> bool \<Rightarrow> doc \<Rightarrow> doc" where
  "execute_parts fsize [] first doc = doc"
| "execute_parts fsize (p # ps) first doc =
     (case p ''text'' of
        Some t \<Rightarrow>
          (let prefix = (if first then bs # ''item '' else [])
           in execute_parts fsize ps False (doc_append doc (prefix @ normalize_text t)))
      | None \<Rightarrow>
          (case p ''code'' of
             Some c \<Rightarrow> execute_parts fsize ps False (doc_append doc (verbatim_block fsize c))
           | None \<Rightarrow> execute_parts fsize ps first doc))"

fun execute_item :: "list_item \<Rightarrow> doc \<Rightarrow> doc" where
  "execute_item (ItemStr s) doc = doc_append doc (bs # ''item '' @ normalize_text s)"
| "execute_item (ItemDict parts_opt fsize_opt text_opt code_opt) doc =
     (let ps = get_or parts_opt []; fsize = get_or fsize_opt ''small''
      in if ps \<noteq> [] then execute_parts fsize ps True doc
         else
           (let t = get_or text_opt []; c = get_or code_opt [];
                doc1 = doc_append doc (bs # ''item '' @ normalize_text t)
            in if c \<noteq> [] then doc_append doc1 (verbatim_block fsize c) else doc1))"

text \<open>
  The content nodes. The fields are, in this order: \<open>TextContent\<close>: text, section,
  subsection, subsubsection, label, newline; \<open>VerbatimContent\<close>: text, newline, font_size;
  \<open>ItemizeContent\<close>: items, newline; \<open>ImageContent\<close>: src, caption, label, width,
  placement; \<open>EmbededContent\<close>: src.
\<close>

datatype content_node =
    TextContent string "string option" "string option" "string option" "string option" bool
  | VerbatimContent string bool string
  | ItemizeContent "list_item list" bool
  | ImageContent string string "string option" string string
  | EmbededContent string

text \<open>\<open>ItemizeContent.execute\<close>.\<close>

definition ItemizeContent_execute :: "list_item list \<Rightarrow> bool \<Rightarrow> doc \<Rightarrow> doc" where
  "ItemizeContent_execute items newline doc =
     (let doc1 = doc_append doc (bs # ''begin{itemize}[topsep=0pt]'');
          doc2 = fold execute_item items doc1;
          doc3 = doc_append doc2 (bs # ''end{itemize}'')
      in if newline then doc_append doc3 (bs # ''vspace{'' @ bs # ''baselineskip}'') else doc3)"

text \<open>
  YAML values, as \<open>yaml.safe_load\<close> returns them: a mapping is a \<open>dict\<close> with string keys,
  kept as an association list whose first entry for a key is the value of that key.
\<close>

datatype pyval =
    PNone | PBool bool | PInt int | PStr string | PList "pyval list"
  | PDict "(string \<times> pyval) list"

type_synonym pydict = "(string \<times> pyval) list"

datatype py_error = KeyError | TypeError | AttributeError | IndexError | ValueError
  | ValidationError

text \<open>\<open>del d[key]\<close> and the dictionary left by \<open>d.pop(key)\<close>.\<close>

definition dict_del :: "string \<Rightarrow> pydict \<Rightarrow> pydict" where
  "dict_del k d = filter (\<lambda>kv. fst kv \<noteq> k) d"

text \<open>
  What \<open>for c in content\<close> runs over: the elements of a list, the keys of a mapping, the
  characters of a string; any other value is not iterable.
\<close>

fun py_iter :: "pyval \<Rightarrow> py_error + pyval list" where
  "py_iter (PList cs) = Inr cs"
| "py_iter (PDict d) = Inr (map (\<lambda>kv. PStr (fst kv)) d)"
| "py_iter (PStr s) = Inr (map (\<lambda>c. PStr [c]) s)"
| "py_iter v = Inl TypeError"

text \<open>
  \<open>c.pop("type")\<close>: the value under the key and the record without the key. A record
  without the key raises \<open>KeyError\<close>; a list has a \<open>pop\<close> that refuses a string, the other
  values have no \<open>pop\<close>.
\<close>

fun pop_type :: "pyval \<Rightarrow> py_error + (pyval \<times> pydict)" where
  "pop_type (PDict d) =
     (case map_of d ''type'' of
        None \<Rightarrow> Inl KeyError
      | Some t \<Rightarrow> Inr (t, dict_del ''type'' d))"
| "pop_type (PList cs) = Inl TypeError"
| "pop_type v = Inl AttributeError"

record DocumentContent =
  title :: "string option"
  label :: "string option"
  content :: "content_node list"

text \<open>
  The constructors of the pydantic models validate the keyword arguments they are given
  and raise on a record they refuse. pydantic is not part of this repository: its
  validation is a parameter of the loader, one function per model. The one for
  \<open>DocumentContent\<close> is called without the \<open>content\<close> key and returns the title and the
  label; the content list then starts empty.
\<close>

record pydantic =
  new_EmbededContent :: "pydict \<Rightarrow> py_error + content_node"
  new_TextContent :: "pydict \<Rightarrow> py_error + content_node"
  new_ItemizeContent :: "pydict \<Rightarrow> py_error + content_node"
  new_ImageContent :: "pydict \<Rightarrow> py_error + content_node"
  new_VerbatimContent :: "pydict \<Rightarrow> py_error + content_node"
  new_DocumentContent :: "pydict \<Rightarrow> py_error + (string option \<times> string option)"

text \<open>One round of the loop of \<open>from_dic\<close>: \<open>doc.content.append(...)\<close> for the record \<open>c\<close>.\<close>

definition append_node ::
  "DocumentContent \<Rightarrow> py_error + content_node \<Rightarrow> py_error + DocumentContent" where
  "append_node doc r =
     (case r of Inl e \<Rightarrow> Inl e | Inr n \<Rightarrow> Inr (doc\<lparr>content := content doc @ [n]\<rparr>))"

definition load_record ::
  "pydantic \<Rightarrow> pyval \<Rightarrow> DocumentContent \<Rightarrow> py_error + DocumentContent" where
  "load_record V c doc =
     (case pop_type c of
        Inl e \<Rightarrow> Inl e
      | Inr (ty, c') \<Rightarrow>
          if ty = PStr ''embed'' then append_node doc (new_EmbededContent V c')
          else if ty = PStr ''paragraph'' then append_node doc (new_TextContent V c')
          else if ty = PStr ''itemize'' then append_node doc (new_ItemizeContent V c')
          else if ty = PStr ''image'' then append_node doc (new_ImageContent V c')
          else if ty = PStr ''code'' then append_node doc (new_VerbatimContent V c')
          else Inr doc)"

fun load_records ::
  "pydantic \<Rightarrow> pyval list \<Rightarrow> DocumentContent \<Rightarrow> py_error + DocumentContent" where
  "load_records V [] doc = Inr doc"
| "load_records V (c # cs) doc =
     (case load_record V c doc of Inl e \<Rightarrow> Inl e | Inr doc' \<Rightarrow> load_records V cs doc')"

text \<open>
  \<open>DocumentContent.from_dic\<close>. \<open>data.get("content", [])\<close> is followed by
  \<open>del data["content"]\<close>, which raises \<open>KeyError\<close> when the key is absent.
\<close>

definition from_dic :: "pydantic \<Rightarrow> pydict \<Rightarrow> py_error + DocumentContent" where
  "from_dic V data =
     (let cnt = get_or (map_of data ''content'') (PList [])
      in case map_of data ''content'' of
           None \<Rightarrow> Inl KeyError
         | Some x \<Rightarrow>
             (case new_DocumentContent V (dict_del ''content'' data) of
                Inl e \<Rightarrow> Inl e
              | Inr (t, l) \<Rightarrow>
                  (case py_iter cnt of
                     Inl e \<Rightarrow> Inl e
                   | Inr cs \<Rightarrow> load_records V cs \<lparr>title = t, label = l, content = []\<rparr>)))"

section \<open>Dates of the \<open>datetime\<close> module\<close>

record datetime =
  year :: nat
  month :: nat
  day :: nat

definition is_digit :: "char \<Rightarrow> bool" where
  "is_digit c = (let n = (of_char c :: nat) in 48 \<le> n \<and> n \<le> 57)"

definition digit_val :: "char \<Rightarrow> nat" where
  "digit_val c = of_char c - 48"

definition in_range :: "char \<Rightarrow> char \<Rightarrow> char \<Rightarrow> bool" where
  "in_range lo hi c = ((of_char lo :: nat) \<le> of_char c \<and> (of_char c :: nat) \<le> of_char hi)"

text \<open>
  \<open>datetime.strptime(raw, "%Y-%m-%d")\<close> turns the format into the regular expression
  \<open>(\d\d\d\d)-(1[0-2]|0[1-9]|[1-9])-(3[0-1]|[1-2]\d|0[1-9]|[1-9]| [1-9])\<close> and matches it
  at the start of the string. Each directive below returns its alternatives in the
  order of the expression, each with the value read and the text left; the first way
  through the whole expression is the match.
\<close>

fun two_chars :: "(char \<Rightarrow> bool) \<Rightarrow> (char \<Rightarrow> bool) \<Rightarrow> string \<Rightarrow> (nat \<times> string) list" where
  "two_chars f g (a # b # r) = (if f a \<and> g b then [(10 * digit_val a + digit_val b, r)] else [])"
| "two_chars f g s = []"

fun one_char :: "(char \<Rightarrow> bool) \<Rightarrow> string \<Rightarrow> (nat \<times> string) list" where
  "one_char f (a # r) = (if f a then [(digit_val a, r)] else [])"
| "one_char f [] = []"

fun lit :: "char \<Rightarrow> string \<Rightarrow> string list" where
  "lit c (a # r) = (if a = c then [r] else [])"
| "lit c [] = []"

fun dir_Y :: "string \<Rightarrow> (nat \<times> string) list" where
  "dir_Y (a # b # c # d # r) =
     (if is_digit a \<and> is_digit b \<and> is_digit c \<and> is_digit d
      then [(1000 * digit_val a + 100 * digit_val b + 10 * digit_val c + digit_val d, r)]
      else [])"
| "dir_Y s = []"

definition dir_m :: "string \<Rightarrow> (nat \<times> string) list" where
  "dir_m s =
     two_chars (in_range CHR ''1'' CHR ''1'') (in_range CHR ''0'' CHR ''2'') s
     @ two_chars (in_range CHR ''0'' CHR ''0'') (in_range CHR ''1'' CHR ''9'') s
     @ one_char (in_range CHR ''1'' CHR ''9'') s"

definition dir_d :: "string \<Rightarrow> (nat \<times> string) list" where
  "dir_d s =
     two_chars (in_range CHR ''3'' CHR ''3'') (in_range CHR ''0'' CHR ''1'') s
     @ two_chars (in_range CHR ''1'' CHR ''2'') is_digit s
     @ two_chars (in_range CHR ''0'' CHR ''0'') (in_range CHR ''1'' CHR ''9'') s
     @ one_char (in_range CHR ''1'' CHR ''9'') s
     @ concat (map (one_char (in_range CHR ''1'' CHR ''9'')) (lit CHR '' '' s))"

definition match_ymd :: "string \<Rightarrow> (nat \<times> nat \<times> nat \<times> string) list" where
  "match_ymd s =
     [(y, m, d, r5).
        (y, r1) \<leftarrow> dir_Y s, r2 \<leftarrow> lit CHR ''-'' r1,
        (m, r3) \<leftarrow> dir_m r2, r4 \<leftarrow> lit CHR ''-'' r3,
        (d, r5) \<leftarrow> dir_d r4]"

text \<open>A date exists when the year is 1 to 9999 and the day is one of the month.\<close>

definition is_leap :: "nat \<Rightarrow> bool" where
  "is_leap y = (y mod 4 = 0 \<and> (y mod 400 = 0 \<or> y mod 100 \<noteq> 0))"

definition days_in_month :: "nat \<Rightarrow> nat \<Rightarrow> nat" where
  "days_in_month y m =
     (if m = 2 then (if is_leap y then 29 else 28)
      else if m = 4 \<or> m = 6 \<or> m = 9 \<or> m = 11 then 30 else 31)"

definition valid_date :: "nat \<Rightarrow> nat \<Rightarrow> nat \<Rightarrow> bool" where
  "valid_date y m d =
     (1 \<le> y \<and> y \<le> 9999 \<and> 1 \<le> m \<and> m \<le> 12 \<and> 1 \<le> d \<and> d \<le> days_in_month y m)"

text \<open>
  \<open>strptime\<close> raises \<open>ValueError\<close> when the expression does not match, when text is left
  after the match, and when the date read does not exist.
\<close>

definition strptime :: "string \<Rightarrow> py_error + datetime" where
  "strptime raw =
     (case match_ymd raw of
        [] \<Rightarrow> Inl ValueError
      | (y, m, d, r) # others \<Rightarrow>
          if r \<noteq> [] then Inl ValueError
          else if valid_date y m d then Inr \<lparr>year = y, month = m, day = d\<rparr>
          else Inl ValueError)"

text \<open>
  \<open>strftime("%B %d, %Y")\<close>: the English name of the month, the day on two digits, the
  year. A year below 1000 is printed on four digits or as it is, depending on the
  platform; \<open>zero_pad\<close> says which.
\<close>

definition month_names :: "string list" where
  "month_names = [''January'', ''February'', ''March'', ''April'', ''May'', ''June'', ''July'',
     ''August'', ''September'', ''October'', ''November'', ''December'']"

definition zfill :: "nat \<Rightarrow> string \<Rightarrow> string" where
  "zfill w s = replicate (w - length s) CHR ''0'' @ s"

definition strftime :: "bool \<Rightarrow> datetime \<Rightarrow> string" where
  "strftime zero_pad d =
     month_names ! (month d - 1) @ '' '' @ zfill 2 (str_of_nat (day d)) @ '', ''
       @ (if zero_pad then zfill 4 (str_of_nat (year d)) else str_of_nat (year d))"

text \<open>
  The text of the date \<open>y\<close>, \<open>m\<close>, \<open>d\<close> in the format YYYY-MM-DD: the year on four digits,
  the month and the day on two, with hyphens between them.
\<close>

definition iso_date :: "nat \<Rightarrow> nat \<Rightarrow> nat \<Rightarrow> string" where
  "iso_date y m d =
     zfill 4 (str_of_nat y) @ ''-'' @ zfill 2 (str_of_nat m) @ ''-'' @ zfill 2 (str_of_nat d)"

text \<open>
  The exact format YYYY-MM-DD, read as a shape: ten characters, digits but for the two
  hyphens.
\<close>

definition in_iso_format :: "string \<Rightarrow> bool" where
  "in_iso_format s =
     (length s = 10 \<and> list_all is_digit (take 4 s) \<and> s ! 4 = CHR ''-''
      \<and> list_all is_digit (take 2 (drop 5 s)) \<and> s ! 7 = CHR ''-''
      \<and> list_all is_digit (drop 8 s))"

text \<open>
  The texts of a date that \<open>strptime\<close> reads with \<open>%Y-%m-%d\<close>: the year on four digits,
  the month on two digits or without its leading zero, the day on two digits, without
  its leading zero, or with a space in place of the zero.
\<close>

definition month_texts :: "nat \<Rightarrow> string list" where
  "month_texts m = [zfill 2 (str_of_nat m), str_of_nat m]"

definition day_texts :: "nat \<Rightarrow> string list" where
  "day_texts d =
     [zfill 2 (str_of_nat d), str_of_nat d] @ (if d < 10 then [CHR '' '' # str_of_nat d] else [])"

definition date_texts :: "nat \<Rightarrow> nat \<Rightarrow> nat \<Rightarrow> string list" where
  "date_texts y m d =
     [zfill 4 (str_of_nat y) @ ''-'' @ mt @ ''-'' @ dt. mt \<leftarrow> month_texts m, dt \<leftarrow> day_texts d]"

section \<open>The document assembler (\<open>docs/tex/models/document_config.py\<close>)\<close>

record GeometryOptions =
  geo_top :: string
  geo_bottom :: string
  geo_left :: string
  geo_right :: string

record RevisionEntry =
  version :: string
  date :: string
  description :: "string list"

text \<open>
  The fields of \<open>DocumentConfig\<close>; \<open>title\<close> and \<open>content\<close> are \<open>cfg_title\<close> and
  \<open>cfg_content\<close> here, the plain names being fields of \<open>DocumentContent\<close>.
\<close>

record DocumentConfig =
  cfg_title :: string
  author :: "string list"
  affiliation :: string
  email_domain :: "string option"
  output_file :: string
  geometry_options :: GeometryOptions
  preamble :: "string list"
  cfg_content :: "string list"
  abstract :: string
  revision_history :: "RevisionEntry list"

text \<open>
  The loop of \<open>RevisionEntry.render\<close> over the revisions. \<open>rev.description[0]\<close> raises
  \<open>IndexError\<close> on an entry without a description line.
\<close>

definition main_row :: "RevisionEntry \<Rightarrow> string \<Rightarrow> string" where
  "main_row entry d0 =
     version entry @ '' & '' @ date entry @ '' & '' @ normalize_text d0 @ '' '' @ [bs, bs]"

definition continuation_row :: "string \<Rightarrow> string" where
  "continuation_row desc = ''& & '' @ normalize_text desc @ '' '' @ [bs, bs]"

fun render_rows :: "RevisionEntry list \<Rightarrow> doc \<Rightarrow> py_error + doc" where
  "render_rows [] doc = Inr doc"
| "render_rows (entry # revisions) doc =
     (case description entry of
        [] \<Rightarrow> Inl IndexError
      | d0 # ds \<Rightarrow>
          render_rows revisions
            (fold (\<lambda>desc dc. doc_append dc (continuation_row desc)) ds
               (doc_append doc (main_row entry d0))))"

definition table_header :: "string list" where
  "table_header =
     [bs # ''vspace{1em}'',
      [CHR 0x0A],
      bs # ''begin{center}'' @ bs # ''textit{Revision History}'' @ bs # ''end{center}'',
      [CHR 0x0A],
      bs # ''begin{center}'',
      bs # ''small'',
      bs # ''renewcommand{'' @ bs # ''arraystretch}{1.75}'',
      bs # ''begin{tabular}{@'' @ ''{}rll@'' @ ''{}}'',
      bs # ''textit{Version} & '' @ bs # ''textit{Date} & '' @ bs # ''textit{Description} ''
        @ [bs, bs],
      bs # ''hline'']"

definition table_footer :: "string list" where
  "table_footer =
     [bs # ''end{tabular}'', bs # ''end{center}'', [CHR 0x0A], bs # ''newpage'']"

definition RevisionEntry_render :: "doc \<Rightarrow> RevisionEntry list \<Rightarrow> py_error + doc" where
  "RevisionEntry_render doc revisions =
     (if revisions \<noteq> []
      then (case render_rows revisions (doc @ table_header) of
              Inl e \<Rightarrow> Inl e
            | Inr doc' \<Rightarrow> Inr (doc' @ table_footer))
      else Inr doc)"

text \<open>The properties \<open>version\<close> and \<open>latest_date\<close> of \<open>DocumentConfig\<close>.\<close>

definition DocumentConfig_version :: "DocumentConfig \<Rightarrow> string" where
  "DocumentConfig_version cfg =
     (if revision_history cfg \<noteq> [] then version (last (revision_history cfg))
      else ''0.1.0'')"

definition latest_date :: "bool \<Rightarrow> DocumentConfig \<Rightarrow> py_error + string" where
  "latest_date zero_pad cfg =
     (if revision_history cfg \<noteq> []
      then (case strptime (date (last (revision_history cfg))) of
              Inl e \<Rightarrow> Inl e
            | Inr d \<Rightarrow> Inr (strftime zero_pad d))
      else Inr (bs # ''today''))"

text \<open>The argument of the \<open>date\<close> command that \<open>create_page_title\<close> puts on the title.\<close>

definition date_content :: "bool \<Rightarrow> DocumentConfig \<Rightarrow> py_error + string" where
  "date_content zero_pad cfg =
     (case latest_date zero_pad cfg of
        Inl e \<Rightarrow> Inl e
      | Inr ld \<Rightarrow>
          Inr (''{'' @ bs # ''large '' @ bs # ''textit{'' @ affiliation cfg @ ''}}'' @ [bs, bs]
               @ ''[2em]'' @ bs # ''textit{'' @ ld @ ''}'' @ [bs, bs]
               @ ''[0.5em]'' @ bs # ''textit{Version '' @ DocumentConfig_version cfg @ ''}''))"

section \<open>Sample inputs\<close>

text \<open>
  A configuration with a given revision history, and a stand-in for pydantic that accepts
  every paragraph record and refuses the records of the other four kinds. They are the
  concrete inputs at which the general statements below are exercised.
\<close>

definition sample_config :: "RevisionEntry list \<Rightarrow> DocumentConfig" where
  "sample_config rh =
     \<lparr>cfg_title = ''Title'', author = [''A. Author''], affiliation = ''Lab'',
      email_domain = None, output_file = ''out'',
      geometry_options = \<lparr>geo_top = ''1in'', geo_bottom = ''1in'', geo_left = ''1in'',
                            geo_right = ''1in''\<rparr>,
      preamble = [], cfg_content = [], abstract = ''Abstract'', revision_history = rh\<rparr>"

definition sample_pydantic :: pydantic where
  "sample_pydantic =
     \<lparr>new_EmbededContent = (\<lambda>d. Inl ValidationError),
      new_TextContent = (\<lambda>d. Inr (TextContent [] None None None None True)),
      new_ItemizeContent = (\<lambda>d. Inl ValidationError),
      new_ImageContent = (\<lambda>d. Inl ValidationError),
      new_VerbatimContent = (\<lambda>d. Inl ValidationError),
      new_DocumentContent = (\<lambda>d. Inr (None, None))\<rparr>"

section \<open>Properties of the text normalizer\<close>

subsection \<open>The matcher\<close>

lemma rmatch_shorter: "rmatch p s = Some (ms, e) \<Longrightarrow> length e \<le> length s"
proof (induction p s arbitrary: ms e rule: rmatch.induct)
  case (2 p s)
  then show ?case by (auto split: option.splits)
next
  case (8 a p c cs)
  then show ?case by (fastforce split: if_splits option.splits)
next
  case (12 a p c cs)
  then show ?case by (fastforce split: if_splits option.splits)
qed (auto split: if_splits option.splits)

lemma rmatch_One_shorter:
  "rmatch (One a # p) s = Some (ms, e) \<Longrightarrow> length e < length s"
  by (cases s) (auto split: if_splits dest: rmatch_shorter)

text \<open>The five patterns of the normalizer consume at least one character when they match.\<close>

lemma patterns_move_forward:
  assumes "p = tt_re \<or> p = bold_re \<or> p = italic_re \<or> p = link_re \<or> p = cmd_re"
    and "rmatch p s = Some (ms, e)"
  shows "length e < length s"
  using assms
  by (auto simp: tt_re_def bold_re_def italic_re_def link_re_def cmd_re_def
      dest: rmatch_One_shorter)

text \<open>
  A greedy star over a run of matching characters that ends where the atom no longer
  matches takes the whole run when the rest of the pattern then succeeds.
\<close>

lemma rmatch_Star_run:
  assumes "list_all (atom_ok a) xs"
    and "ys = [] \<or> \<not> atom_ok a (hd ys)"
    and "rmatch p ys = Some r"
  shows "rmatch (Star a # p) (xs @ ys) = Some r"
  using assms
proof (induction xs)
  case Nil
  then show ?case by (cases ys) auto
next
  case (Cons x xs)
  then show ?case by simp
qed

lemma str_replace_self:
  assumes "old \<noteq> []"
  shows "str_replace old new old = new"
proof (cases old)
  case Nil
  with assms show ?thesis by simp
next
  case (Cons c cs)
  then show ?thesis by simp
qed

lemma rmatch_link:
  assumes "d \<noteq> []" and "CHR '']'' \<notin> set d" and "u \<noteq> []" and "CHR '')'' \<notin> set u"
  shows "rmatch link_re (CHR ''['' # d @ '']('' @ u @ '')'' @ rest)
         = Some ([d @ '']('' @ u @ '')'' @ rest, '']('' @ u @ '')'' @ rest,
                  u @ '')'' @ rest, '')'' @ rest], rest)"
proof -
  obtain d0 ds where d: "d = d0 # ds" using assms(1) by (cases d) auto
  obtain u0 us where u: "u = u0 # us" using assms(3) by (cases u) auto
  have us: "rmatch (Star (NotLit CHR '')'') # [Mark, One (Lit CHR '')'')]) (us @ '')'' @ rest)
            = Some (['')'' @ rest], rest)"
    using assms(4) u by (intro rmatch_Star_run) (auto simp: list_all_iff)
  have ds: "rmatch (Star (NotLit CHR '']'') # [Mark, One (Lit CHR '']''), One (Lit CHR ''(''), Mark,
                Plus (NotLit CHR '')''), Mark, One (Lit CHR '')'')]) (ds @ '']('' @ u @ '')'' @ rest)
            = Some (['']('' @ u @ '')'' @ rest, u @ '')'' @ rest, '')'' @ rest], rest)"
    using assms(2,4) d u us by (intro rmatch_Star_run) (auto simp: list_all_iff)
  show ?thesis
    using ds assms(2) d by (auto simp: link_re_def)
qed

lemma re_scan_link:
  assumes "d \<noteq> []" and "CHR '']'' \<notin> set d" and "u \<noteq> []" and "CHR '')'' \<notin> set u"
  shows "re_scan link_re (CHR ''['' # d @ '']('' @ u @ '')'')
         = [Mat [CHR ''['' # d @ '']('' @ u @ '')'', d, u]]"
  using rmatch_link [OF assms, of "[]"] by (simp add: mk_match_def)

lemma sentinel_not_empty: "sentinel tag n \<noteq> []"
  by (simp add: sentinel_def)

lemma link_stage:
  assumes "d \<noteq> []" and "CHR '']'' \<notin> set d" and "u \<noteq> []" and "CHR '')'' \<notin> set u"
  shows "re_sub_with link_re capture_link (CHR ''['' # d @ '']('' @ u @ '')'') []
         = (sentinel ''LINK'' 0, [(d, u)])"
  unfolding re_sub_with_def re_scan_link [OF assms]
  by (simp add: capture_link_def)

lemma link_sentinel_untouched:
  "re_sub_with cmd_re capture_cmd (sentinel ''LINK'' 0) [] = (sentinel ''LINK'' 0, [])"
  "apply_formatting (escape_latex (sentinel ''LINK'' 0)) = sentinel ''LINK'' 0"
  by code_simp+

lemma normalize_text_link:
  assumes "d \<noteq> []" and "CHR '']'' \<notin> set d" and "u \<noteq> []" and "CHR '')'' \<notin> set u"
  shows "normalize_text (CHR ''['' # d @ '']('' @ u @ '')'')
         = href u (apply_formatting (escape_latex d))"
  unfolding normalize_text_def link_stage [OF assms]
  by (simp add: link_sentinel_untouched str_replace_self sentinel_not_empty)

lemma cmd_sentinel_untouched:
  "apply_formatting (escape_latex (sentinel ''CMD'' 0)) = sentinel ''CMD'' 0"
  by code_simp

lemma rmatch_cmd:
  assumes "name \<noteq> []" and "list_all is_letter name" and "CHR ''}'' \<notin> set arg"
  shows "rmatch cmd_re (bs # name @ ''{'' @ arg @ ''}'') = Some ([], [])"
proof -
  obtain n ns where n: "name = n # ns" using assms(1) by (cases name) auto
  have a: "rmatch [Star (NotLit CHR ''}''), One (Lit CHR ''}'')] (arg @ ''}'') = Some ([], [])"
    using assms(3) by (intro rmatch_Star_run) (auto simp: list_all_iff)
  have "\<not> is_letter CHR ''{''"
    by (simp add: is_letter_def)
  then have "rmatch [Star Letter, One (Lit CHR ''{''), Star (NotLit CHR ''}''), One (Lit CHR ''}'')]
          (ns @ ''{'' @ arg @ ''}'') = Some ([], [])"
    using assms(2) n a by (intro rmatch_Star_run) (auto simp: list_all_iff)
  then show ?thesis
    using assms(2) n by (auto simp: cmd_re_def)
qed

text \<open>When the link stage captures nothing, it returns the text as it was.\<close>

lemma capture_link_grows:
  "length st \<le> length (snd (sub_toks_with capture_link ts st))"
proof (induction ts arbitrary: st)
  case Nil
  then show ?case by simp
next
  case (Cons t ts)
  show ?case
  proof (cases t)
    case (Ch c)
    then show ?thesis using Cons [of st] by (simp add: split_beta)
  next
    case (Mat m)
    have "length (snd (capture_link m st)) = Suc (length st)"
      by (simp add: capture_link_def)
    then show ?thesis
      using Cons [of "snd (capture_link m st)"] Mat by (simp add: split_beta)
  qed
qed

lemma no_link_captured:
  "snd (sub_toks_with capture_link ts []) = [] \<Longrightarrow>
     ts = map Ch (fst (sub_toks_with capture_link ts []))"
proof (induction ts)
  case Nil
  then show ?case by simp
next
  case (Cons t ts)
  show ?case
  proof (cases t)
    case (Ch c)
    then show ?thesis using Cons by (simp add: split_beta)
  next
    case (Mat m)
    have "snd (capture_link m []) \<noteq> []"
      by (simp add: capture_link_def)
    then have "snd (sub_toks_with capture_link (t # ts) []) \<noteq> []"
      using capture_link_grows [of "snd (capture_link m [])" ts] Mat
      by (cases "snd (capture_link m [])") (auto simp: split_beta)
    with Cons.prems show ?thesis by simp
  qed
qed

lemma re_scan_chars:
  "re_scan p s = map Ch t \<Longrightarrow> t = s"
proof (induction p s arbitrary: t rule: re_scan.induct)
  case (1 p)
  then show ?case by simp
next
  case (2 p c cs)
  show ?case
  proof (cases "rmatch p (c # cs)")
    case None
    with 2 show ?thesis by (cases t) auto
  next
    case (Some r)
    obtain ms e where r: "r = (ms, e)" by (cases r)
    show ?thesis
    proof (cases "length e \<le> length cs")
      case True
      with 2(4) Some r show ?thesis by (cases t) auto
    next
      case False
      with 2(3) [OF Some r [symmetric] False] 2(4) Some r show ?thesis by (cases t) auto
    qed
  qed
qed

lemma no_link_stage:
  assumes "\<not> contains_link s"
  shows "re_sub_with link_re capture_link s [] = (s, [])"
proof -
  have e: "snd (sub_toks_with capture_link (re_scan link_re s) []) = []"
    using assms by (simp add: contains_link_def re_sub_with_def)
  from no_link_captured [OF e] re_scan_chars
  have "fst (sub_toks_with capture_link (re_scan link_re s) []) = s"
    by blast
  with e show ?thesis
    by (simp add: re_sub_with_def prod_eq_iff)
qed

lemma re_scan_cmd:
  assumes "name \<noteq> []" and "list_all is_letter name" and "CHR ''}'' \<notin> set arg"
  shows "re_scan cmd_re (bs # name @ ''{'' @ arg @ ''}'') = [Mat [bs # name @ ''{'' @ arg @ ''}'']]"
  using rmatch_cmd [OF assms] by (simp add: mk_match_def)

lemma cmd_stage:
  assumes "name \<noteq> []" and "list_all is_letter name" and "CHR ''}'' \<notin> set arg"
  shows "re_sub_with cmd_re capture_cmd (bs # name @ ''{'' @ arg @ ''}'') []
         = (sentinel ''CMD'' 0, [bs # name @ ''{'' @ arg @ ''}''])"
  unfolding re_sub_with_def re_scan_cmd [OF assms]
  by (simp add: capture_cmd_def)

subsection \<open>The claims about the normalizer\<close>

text \<open>
  C1. For the input \<open>[Docs](https://example.com/a_b)\<close>, \<open>normalize_text\<close> returns the
  hyperlink construct \<open>\href{https://example.com/a_b}{Docs}\<close>: the target is the URL as
  written, its underscore not escaped. In general, for a text that is one link with a
  display text \<open>d\<close> and a URL \<open>u\<close>, the result is \<open>\href{u}{...}\<close> around the display text
  passed through \<open>escape_latex\<close> and \<open>apply_formatting\<close> only: the display text is escaped
  and formatted on its own and is not scanned again for links or macros.
\<close>

theorem link_target_verbatim:
  "normalize_text ''[Docs](https://example.com/a_b)'' = bs # ''href{https://example.com/a_b}{Docs}''
   \<and> (\<forall>d u. d \<noteq> [] \<and> CHR '']'' \<notin> set d \<and> u \<noteq> [] \<and> CHR '')'' \<notin> set u \<longrightarrow>
         normalize_text (CHR ''['' # d @ '']('' @ u @ '')'')
         = href u (apply_formatting (escape_latex d)))"
proof -
  have "normalize_text ''[Docs](https://example.com/a_b)''
        = bs # ''href{https://example.com/a_b}{Docs}''"
    by code_simp
  then show ?thesis
    using normalize_text_link by blast
qed

text \<open>
  The general part of C1 at a link whose display text is itself a macro with an
  underscore: the URL keeps its underscore, the display text is escaped like plain text.
\<close>

theorem link_target_verbatim_witness:
  "normalize_text (''['' @ bs # ''ref{a_b}](u_v)'')
   = bs # ''href{u_v}{'' @ bs # ''ref{a'' @ bs # ''_b}}''"
proof -
  have e: "apply_formatting (escape_latex (bs # ''ref{a_b}'')) = bs # ''ref{a'' @ bs # ''_b}''"
    by code_simp
  have "normalize_text (CHR ''['' # (bs # ''ref{a_b}'') @ '']('' @ ''u_v'' @ '')'')
        = href ''u_v'' (apply_formatting (escape_latex (bs # ''ref{a_b}'')))"
    by (rule link_target_verbatim [THEN conjunct2, rule_format]) simp
  then show ?thesis
    by (simp add: e href_def)
qed

text \<open>
  C2. There is an input with a character of the reserved escape set, \<open>50% done\<close>, which
  \<open>normalize_text\<close> maps to \<open>50\% done\<close>, and on which applying \<open>normalize_text\<close> twice
  gives another string than applying it once: the backslash-percent of the first pass
  becomes backslash-backslash-percent in the second.
\<close>

theorem normalize_text_not_idempotent:
  "normalize_text ''50% done'' = ''50'' @ [bs] @ ''% done''
   \<and> normalize_text (normalize_text ''50% done'') = ''50'' @ [bs, bs] @ ''% done''
   \<and> normalize_text (normalize_text ''50% done'') \<noteq> normalize_text ''50% done''"
  by code_simp

text \<open>
  C4. \<open>apply_formatting\<close> replaces bold spans before italic spans: \<open>**x**\<close> becomes the one
  bold construct \<open>\textbf{x}\<close>, where the italic pattern alone would have taken \<open>**x*\<close> as
  an italic span; and \<open>**bold** and *italic* and `code`\<close> becomes
  \<open>\textbf{bold} and \textit{italic} and \texttt{code}\<close>, in which no asterisk and no
  backtick is left.
\<close>

theorem bold_before_italic:
  "apply_formatting ''**x**'' = bs # ''textbf{x}''
   \<and> re_sub italic_re (wrap_group ''textit'') ''**x**'' = bs # ''textit{*x}*''
   \<and> apply_formatting ''**bold** and *italic* and `code`''
       = bs # ''textbf{bold} and '' @ bs # ''textit{italic} and '' @ bs # ''texttt{code}''
   \<and> CHR ''*'' \<notin> set (apply_formatting ''**bold** and *italic* and `code`'')
   \<and> CHR 0x60 \<notin> set (apply_formatting ''**bold** and *italic* and `code`'')"
  by code_simp

text \<open>
  C3, as stated, fails: the macro \<open>\ref{[a](b)}\<close> is a backslash, letters and an argument
  in braces, and the whole of it matches the macro pattern, but the link in its argument
  is taken out first and comes back as a hyperlink construct.
\<close>

theorem macro_with_link_is_rewritten:
  "rmatch cmd_re (bs # ''ref{[a](b)}'') = Some ([], [])
   \<and> normalize_text (bs # ''ref{[a](b)}'') = bs # ''ref{'' @ bs # ''href{b}{a}}''
   \<and> normalize_text (bs # ''ref{[a](b)}'') \<noteq> bs # ''ref{[a](b)}''"
  by code_simp

text \<open>
  C3, amended. For every input that is a single raw passthrough macro (a backslash, one
  or more letters, an argument in braces that holds no closing brace) and in which the
  first stage of \<open>normalize_text\<close> captures no link, \<open>normalize_text\<close> returns the input
  exactly.
\<close>

theorem macro_passthrough:
  assumes "name \<noteq> []" and "list_all is_letter name" and "CHR ''}'' \<notin> set arg"
    and "\<not> contains_link (bs # name @ ''{'' @ arg @ ''}'')"
  shows "normalize_text (bs # name @ ''{'' @ arg @ ''}'') = bs # name @ ''{'' @ arg @ ''}''"
  unfolding normalize_text_def no_link_stage [OF assms(4)] prod.case cmd_stage [OF assms(1-3)]
  by (simp add: cmd_sentinel_untouched str_replace_self sentinel_not_empty)

theorem macro_passthrough_witness:
  "normalize_text (bs # ''ref{fig:one}'') = bs # ''ref{fig:one}''"
proof -
  have "\<not> contains_link (bs # ''ref'' @ ''{'' @ ''fig:one'' @ ''}'')"
    by code_simp
  from macro_passthrough [OF _ _ _ this] show ?thesis
    by (simp add: is_letter_def)
qed

section \<open>Properties of the content schema\<close>

text \<open>The parts loop at a code part, and what \<open>rstrip\<close> removes.\<close>

lemma execute_parts_code_part:
  assumes "p ''text'' = None" and "p ''code'' = Some c"
  shows "execute_parts fsize (ps1 @ p # ps2) first doc
         = execute_parts fsize ps2 False
             (doc_append (execute_parts fsize ps1 first doc) (verbatim_block fsize c))"
proof (induction ps1 arbitrary: first doc)
  case Nil
  show ?case using assms by simp
next
  case (Cons q ps1)
  show ?case
    by (cases "q ''text''"; cases "q ''code''") (simp_all add: Cons.IH)
qed

lemma rstrip_suffix: "\<exists>w. c = rstrip c @ w \<and> list_all isspace w"
proof -
  let ?w = "rev (takeWhile isspace (rev c))"
  have "rstrip c @ ?w = rev (takeWhile isspace (rev c) @ dropWhile isspace (rev c))"
    unfolding rstrip_def rev_append ..
  then have "c = rstrip c @ ?w"
    unfolding takeWhile_dropWhile_id by simp
  moreover have "list_all isspace ?w"
    by (simp add: list_all_iff) (meson set_takeWhileD)
  ultimately show ?thesis by blast
qed

lemma rstrip_no_trailing_space: "rstrip c = [] \<or> \<not> isspace (last (rstrip c))"
proof (cases "dropWhile isspace (rev c)")
  case Nil
  then show ?thesis by (simp add: rstrip_def)
next
  case (Cons x xs)
  then have "\<not> isspace x"
    using hd_dropWhile [of isspace "rev c"] by simp
  with Cons show ?thesis by (simp add: rstrip_def)
qed

lemma load_record_unknown:
  assumes "map_of c ''type'' = Some ty"
    and "ty \<notin> {PStr ''embed'', PStr ''paragraph'', PStr ''itemize'', PStr ''image'', PStr ''code''}"
  shows "load_record V (PDict c) doc = Inr doc"
  using assms by (simp add: load_record_def)

lemma load_records_append:
  "load_records V (xs @ ys) doc =
     (case load_records V xs doc of Inl e \<Rightarrow> Inl e | Inr doc' \<Rightarrow> load_records V ys doc')"
  by (induction xs arbitrary: doc) (simp_all split: sum.splits)

text \<open>
  C5 fails on the code. A structured item whose first part is a code part is rendered
  without any list marker: the loop clears its flag \<open>first\<close> in the code branch but only
  the text branch writes \<open>\item\<close>. An item whose first part is a text part gets the
  marker, and so does the legacy form of an item with a code body only.
\<close>

theorem code_first_item_has_no_marker:
  "execute_item (ItemDict (Some [[''code'' \<mapsto> ''x'']]) None None None) []
     = [block_with_body ''small'' ''x'']
   \<and> execute_item (ItemDict (Some [[''text'' \<mapsto> ''x'']]) None None None) []
     = [bs # ''item x'']
   \<and> execute_item (ItemDict None None None (Some ''x'')) []
     = [bs # ''item '', block_with_body ''small'' ''x'']"
proof -
  have "normalize_text ''x'' = ''x''" and "normalize_text [] = []"
    by code_simp+
  then show ?thesis
    by (simp add: verbatim_block_def rstrip_def isspace_def doc_append_def)
qed

text \<open>
  C6, as stated, fails: the code body \<open>x\<close> followed by a space is emitted as \<open>x\<close>, not
  byte for byte.
\<close>

theorem code_body_is_stripped:
  "execute_item (ItemDict (Some [[''code'' \<mapsto> ''x '']]) None None None) []
     = [bs # ''begin{Verbatim}[fontsize='' @ bs # ''small]'' @ [CHR 0x0A]
        @ ''x'' @ [CHR 0x0A] @ bs # ''end{Verbatim}'' @ [CHR 0x0A]]
   \<and> execute_item (ItemDict (Some [[''code'' \<mapsto> ''x '']]) None None None) []
     \<noteq> [bs # ''begin{Verbatim}[fontsize='' @ bs # ''small]'' @ [CHR 0x0A]
        @ ''x '' @ [CHR 0x0A] @ bs # ''end{Verbatim}'' @ [CHR 0x0A]]"
  by (simp add: verbatim_block_def rstrip_def isspace_def doc_append_def block_with_body_def)

text \<open>
  C6, amended. For every code part of a structured list item (a part with a \<open>code\<close> key and
  no \<open>text\<close> key), at any position in the parts list, the fragment appended at its turn is
  \<open>\begin{Verbatim}[fontsize=\SIZE]\<close>, a newline, the code body with its trailing
  whitespace removed, a newline, \<open>\end{Verbatim}\<close> and a newline, where \<open>SIZE\<close> is the
  font size of the item and \<open>small\<close> when the item sets none. Nothing but trailing
  whitespace is removed from the body: the body is the stripped text followed by
  whitespace only, and the stripped text does not end in whitespace.
\<close>

theorem code_part_block:
  assumes "p ''text'' = None" and "p ''code'' = Some c"
  shows "execute_item (ItemDict (Some (ps1 @ p # ps2)) fs t cd) doc
         = execute_parts (case fs of None \<Rightarrow> ''small'' | Some f \<Rightarrow> f) ps2 False
             (execute_parts (case fs of None \<Rightarrow> ''small'' | Some f \<Rightarrow> f) ps1 True doc
              @ [bs # ''begin{Verbatim}[fontsize='' @ bs # (case fs of None \<Rightarrow> ''small'' | Some f \<Rightarrow> f)
                   @ '']'' @ [CHR 0x0A]
                 @ rstrip c @ [CHR 0x0A]
                 @ bs # ''end{Verbatim}'' @ [CHR 0x0A]])
       \<and> (\<exists>w. c = rstrip c @ w \<and> list_all isspace w)
       \<and> (rstrip c = [] \<or> \<not> isspace (last (rstrip c)))"
proof -
  have g: "get_or fs ''small'' = (case fs of None \<Rightarrow> ''small'' | Some f \<Rightarrow> f)"
    by (cases fs) simp_all
  show ?thesis
    using execute_parts_code_part [OF assms] rstrip_suffix rstrip_no_trailing_space
    by (simp add: verbatim_block_def block_with_body_def doc_append_def Let_def g)
qed

text \<open>
  C6 at an item without a font size whose code body ends in a space, a tab and a newline,
  and at an item with the font size \<open>tiny\<close> whose code body holds characters that the
  normalizer would escape.
\<close>

theorem code_part_block_witness:
  "execute_item
     (ItemDict (Some [[''text'' \<mapsto> ''run''], [''code'' \<mapsto> ''x = 1 '' @ [CHR 0x09, CHR 0x0A]]])
        None None None) []
   = [bs # ''item run'',
      bs # ''begin{Verbatim}[fontsize='' @ bs # ''small]'' @ [CHR 0x0A]
        @ ''x = 1'' @ [CHR 0x0A] @ bs # ''end{Verbatim}'' @ [CHR 0x0A]]
   \<and> execute_item
     (ItemDict (Some [[''code'' \<mapsto> ''a_b % c'']]) (Some ''tiny'') None None) []
   = [bs # ''begin{Verbatim}[fontsize='' @ bs # ''tiny]'' @ [CHR 0x0A]
        @ ''a_b % c'' @ [CHR 0x0A] @ bs # ''end{Verbatim}'' @ [CHR 0x0A]]"
proof -
  have n: "normalize_text ''run'' = ''run''"
    by code_simp
  have r: "rstrip (''x = 1 '' @ [CHR 0x09, CHR 0x0A]) = ''x = 1''" "rstrip ''a_b % c'' = ''a_b % c''"
    by (simp_all add: rstrip_def isspace_def)
  have 1: "[''code'' \<mapsto> ''x = 1 '' @ [CHR 0x09, CHR 0x0A]] ''text'' = None"
    and 2: "[''code'' \<mapsto> ''x = 1 '' @ [CHR 0x09, CHR 0x0A]] ''code''
            = Some (''x = 1 '' @ [CHR 0x09, CHR 0x0A])"
    and 3: "[''code'' \<mapsto> ''a_b % c''] ''text'' = None"
    and 4: "[''code'' \<mapsto> ''a_b % c''] ''code'' = Some ''a_b % c''"
    by simp_all
  from code_part_block [OF 1 2, of "[[''text'' \<mapsto> ''run'']]" "[]" None None None "[]"]
    code_part_block [OF 3 4, of "[]" "[]" "Some ''tiny''" None None "[]"]
  show ?thesis
    using r by (simp add: n doc_append_def)
qed

text \<open>
  C7. A content record whose discriminator is none of \<open>embed\<close>, \<open>paragraph\<close>, \<open>itemize\<close>,
  \<open>image\<close> and \<open>code\<close> is skipped by the loader: its round of the loop raises nothing and
  leaves the document as it was, and loading a content list with the record gives the
  same result, a document or an error, as loading the list without it. This holds for
  every behaviour of the pydantic constructors.
\<close>

theorem unknown_type_is_skipped:
  assumes "map_of c ''type'' = Some ty"
    and "ty \<notin> {PStr ''embed'', PStr ''paragraph'', PStr ''itemize'', PStr ''image'', PStr ''code''}"
  shows "load_record V (PDict c) doc = Inr doc
       \<and> load_records V (xs @ PDict c # ys) doc = load_records V (xs @ ys) doc
       \<and> from_dic V ((''content'', PList (xs @ PDict c # ys)) # data)
           = from_dic V ((''content'', PList (xs @ ys)) # data)"
proof -
  have skip: "load_record V (PDict c) d = Inr d" for d
    using assms by (rule load_record_unknown)
  have loop: "load_records V (xs @ PDict c # ys) d = load_records V (xs @ ys) d" for d
    by (simp add: load_records_append skip split: sum.splits)
  show ?thesis
    by (simp add: skip loop from_dic_def dict_del_def split: sum.splits)
qed

theorem unknown_type_is_skipped_witness:
  "from_dic sample_pydantic
     [(''content'', PList [PDict [(''type'', PStr ''paragraph'')],
                           PDict [(''type'', PStr ''table''), (''rows'', PInt 3)]])]
   = Inr \<lparr>title = None, label = None, content = [TextContent [] None None None None True]\<rparr>
   \<and> load_record sample_pydantic (PDict [(''type'', PStr ''table''), (''rows'', PInt 3)])
       \<lparr>title = None, label = None, content = []\<rparr>
     = Inr \<lparr>title = None, label = None, content = []\<rparr>"
proof -
  have t: "map_of [(''type'', PStr ''table''), (''rows'', PInt 3)] ''type'' = Some (PStr ''table'')"
    by simp
  have n: "PStr ''table'' \<notin> {PStr ''embed'', PStr ''paragraph'', PStr ''itemize'', PStr ''image'',
             PStr ''code''}"
    by simp
  have "from_dic sample_pydantic [(''content'', PList [PDict [(''type'', PStr ''paragraph'')]])]
        = Inr \<lparr>title = None, label = None, content = [TextContent [] None None None None True]\<rparr>"
    by (simp add: from_dic_def sample_pydantic_def dict_del_def load_record_def append_node_def)
  with unknown_type_is_skipped [OF t n, of sample_pydantic
      "\<lparr>title = None, label = None, content = []\<rparr>" "[PDict [(''type'', PStr ''paragraph'')]]"
      "[]" "[]"]
  show ?thesis
    by simp
qed

section \<open>Properties of the document assembler\<close>

lemma strptime_error: "strptime raw = Inl e \<Longrightarrow> e = ValueError"
  by (auto simp: strptime_def split: list.splits if_splits)

subsection \<open>Parsing a date in the format YYYY-MM-DD\<close>

lemma char_of_48: "char_of (48::nat) = CHR ''0''"
  by code_simp

lemma str_of_nat_digit: "n < 10 \<Longrightarrow> str_of_nat n = [char_of (48 + n)]"
  by (simp add: str_of_nat.simps)

lemma str_of_nat_step:
  "10 \<le> n \<Longrightarrow> str_of_nat n = str_of_nat (n div 10) @ [char_of (48 + n mod 10)]"
  by (subst str_of_nat.simps) simp

lemma zfill2:
  assumes "n < 100"
  shows "zfill 2 (str_of_nat n) = [char_of (48 + n div 10), char_of (48 + n mod 10)]"
proof (cases "n < 10")
  case True
  then show ?thesis
    by (simp add: str_of_nat_digit zfill_def char_of_48)
next
  case False
  with assms have "n div 10 < 10" by simp
  with False show ?thesis
    by (simp add: str_of_nat_step str_of_nat_digit zfill_def)
qed

lemma replicate_small:
  "replicate 2 x = [x, x]" "replicate 3 x = [x, x, x]"
  by (simp_all add: numeral_eq_Suc)

lemma zfill4:
  assumes "n < 10000"
  shows "zfill 4 (str_of_nat n)
         = [char_of (48 + n div 1000), char_of (48 + n div 100 mod 10),
            char_of (48 + n div 10 mod 10), char_of (48 + n mod 10)]"
proof -
  consider "n < 10" | "10 \<le> n" "n < 100" | "100 \<le> n" "n < 1000" | "1000 \<le> n"
    by linarith
  then show ?thesis
  proof cases
    case 1
    then show ?thesis
      by (simp add: str_of_nat_digit zfill_def char_of_48 replicate_small)
  next
    case 2
    then have "n div 10 < 10" by simp
    with 2 show ?thesis
      by (simp add: str_of_nat_step str_of_nat_digit zfill_def char_of_48 replicate_small)
  next
    case 3
    then have a: "10 \<le> n div 10" and b: "n div 10 div 10 < 10" by simp_all
    have c: "n div 10 div 10 = n div 100" by (simp add: div_mult2_eq)
    from 3 a b c show ?thesis
      by (simp add: str_of_nat_step [of n] str_of_nat_step [of "n div 10"] str_of_nat_digit
          zfill_def char_of_48 replicate_small)
  next
    case 4
    with assms have a: "10 \<le> n div 10" and b: "10 \<le> n div 10 div 10"
      and c: "n div 10 div 10 div 10 < 10" by simp_all
    have d: "n div 10 div 10 = n div 100" "n div 10 div 10 div 10 = n div 1000"
      by (simp_all add: div_mult2_eq)
    from 4 a b c d show ?thesis
      by (simp add: str_of_nat_step [of n] str_of_nat_step [of "n div 10"]
          str_of_nat_step [of "n div 100"] str_of_nat_digit zfill_def)
  qed
qed


lemma digit_char:
  assumes "k < 10"
  shows "is_digit (char_of (48 + k))" and "digit_val (char_of (48 + k)) = k"
    and "(of_char (char_of (48 + k)) :: nat) = 48 + k"
  using assms by (simp_all add: is_digit_def digit_val_def)

lemma decimal4:
  "1000 * (y div 1000) + 100 * (y div 100 mod 10) + 10 * (y div 10 mod 10) + y mod 10 = (y::nat)"
proof -
  define a where "a = y div 10"
  define b where "b = y div 100"
  define c where "c = y div 1000"
  have ab: "a div 10 = b" and bc: "b div 10 = c"
    by (simp_all add: a_def b_def c_def div_mult2_eq)
  have e1: "y = 10 * a + y mod 10"
    unfolding a_def by simp
  have e2: "a = 10 * b + a mod 10"
    unfolding ab [symmetric] by simp
  have e3: "b = 10 * c + b mod 10"
    unfolding bc [symmetric] by simp
  have "1000 * c + 100 * (b mod 10) + 10 * (a mod 10) + y mod 10 = y"
    using e1 e2 e3 by linarith
  then show ?thesis
    by (simp add: a_def b_def c_def)
qed

lemma decimal2: "10 * (n div 10) + n mod 10 = (n::nat)"
  by simp

lemma dir_Y_chars:
  assumes "a < 10" and "b < 10" and "c < 10" and "e < 10"
  shows "dir_Y ([char_of (48 + a), char_of (48 + b), char_of (48 + c), char_of (48 + e)] @ rest)
         = [(1000 * a + 100 * b + 10 * c + e, rest)]"
  using assms by (simp add: digit_char)

lemma dir_Y_digits:
  assumes "y < 10000"
  shows "dir_Y (zfill 4 (str_of_nat y) @ rest) = [(y, rest)]"
proof -
  have "y div 1000 < 10"
    using assms by simp
  then show ?thesis
    using dir_Y_chars [of "y div 1000" "y div 100 mod 10" "y div 10 mod 10" "y mod 10" rest]
    unfolding zfill4 [OF assms] decimal4 by simp
qed

lemma two_chars_digits:
  assumes "a < 10" and "b < 10"
  shows "two_chars f g ([char_of (48 + a), char_of (48 + b)] @ rest)
         = (if f (char_of (48 + a)) \<and> g (char_of (48 + b)) then [(10 * a + b, rest)] else [])"
  using assms by (simp add: digit_char)

lemma in_range_digit:
  assumes "(k::nat) < 10"
  shows "in_range CHR ''0'' CHR ''0'' (char_of (48 + k)) = (k = 0)"
    and "in_range CHR ''1'' CHR ''1'' (char_of (48 + k)) = (k = 1)"
    and "in_range CHR ''3'' CHR ''3'' (char_of (48 + k)) = (k = 3)"
    and "in_range CHR ''0'' CHR ''1'' (char_of (48 + k)) = (k \<le> 1)"
    and "in_range CHR ''0'' CHR ''2'' (char_of (48 + k)) = (k \<le> 2)"
    and "in_range CHR ''1'' CHR ''2'' (char_of (48 + k)) = (1 \<le> k \<and> k \<le> 2)"
    and "in_range CHR ''1'' CHR ''9'' (char_of (48 + k)) = (1 \<le> k)"
  using assms by (auto simp: in_range_def digit_char)

lemma dir_m_chars:
  assumes "a < 10" and "b < 10" and "1 \<le> 10 * a + b" and "10 * a + b \<le> 12"
  shows "\<exists>others. dir_m ([char_of (48 + a), char_of (48 + b)] @ rest)
           = (10 * a + b, rest) # others"
proof -
  have c: "a = 1 \<and> b \<le> 2 \<or> a = 0 \<and> 1 \<le> b"
    using assms by linarith
  have "dir_m ([char_of (48 + a), char_of (48 + b)] @ rest)
        = (if a = 1 \<and> b \<le> 2 then [(10 * a + b, rest)] else [])
          @ (if a = 0 \<and> 1 \<le> b then [(10 * a + b, rest)] else [])
          @ one_char (in_range CHR ''1'' CHR ''9'') ([char_of (48 + a), char_of (48 + b)] @ rest)"
    by (simp only: dir_m_def two_chars_digits [OF assms(1,2)] in_range_digit [OF assms(1)]
        in_range_digit [OF assms(2)])
  with c show ?thesis by auto
qed

lemma dir_d_chars:
  assumes "a < 10" and "b < 10" and "1 \<le> 10 * a + b" and "10 * a + b \<le> 31"
  shows "\<exists>others. dir_d ([char_of (48 + a), char_of (48 + b)] @ rest)
           = (10 * a + b, rest) # others"
proof -
  have c: "a = 3 \<and> b \<le> 1 \<or> 1 \<le> a \<and> a \<le> 2 \<or> a = 0 \<and> 1 \<le> b"
    using assms by linarith
  have "dir_d ([char_of (48 + a), char_of (48 + b)] @ rest)
        = (if a = 3 \<and> b \<le> 1 then [(10 * a + b, rest)] else [])
          @ (if (1 \<le> a \<and> a \<le> 2) \<and> is_digit (char_of (48 + b)) then [(10 * a + b, rest)] else [])
          @ (if a = 0 \<and> 1 \<le> b then [(10 * a + b, rest)] else [])
          @ one_char (in_range CHR ''1'' CHR ''9'') ([char_of (48 + a), char_of (48 + b)] @ rest)
          @ concat (map (one_char (in_range CHR ''1'' CHR ''9''))
              (lit CHR '' '' ([char_of (48 + a), char_of (48 + b)] @ rest)))"
    by (simp only: dir_d_def two_chars_digits [OF assms(1,2)] in_range_digit [OF assms(1)]
        in_range_digit [OF assms(2)])
  with c digit_char(1) [OF assms(2)] show ?thesis by auto
qed

lemma dir_m_digits:
  assumes "1 \<le> m" and "m \<le> 12"
  shows "\<exists>others. dir_m (zfill 2 (str_of_nat m) @ rest) = (m, rest) # others"
proof -
  have m: "m < 100" using assms by simp
  have "m div 10 < 10" and "m mod 10 < 10" using m by simp_all
  from dir_m_chars [OF this, unfolded decimal2, OF assms] show ?thesis
    unfolding zfill2 [OF m] .
qed

lemma dir_d_digits:
  assumes "1 \<le> d" and "d \<le> 31"
  shows "\<exists>others. dir_d (zfill 2 (str_of_nat d) @ rest) = (d, rest) # others"
proof -
  have d: "d < 100" using assms by simp
  have "d div 10 < 10" and "d mod 10 < 10" using d by simp_all
  from dir_d_chars [OF this, unfolded decimal2, OF assms] show ?thesis
    unfolding zfill2 [OF d] .
qed

lemma days_in_month_le: "days_in_month y m \<le> 31"
  by (simp add: days_in_month_def)

lemma match_ymd_iso:
  assumes "valid_date y m d"
  shows "\<exists>others. match_ymd (iso_date y m d) = (y, m, d, []) # others"
proof -
  from assms have y: "y < 10000" and m: "1 \<le> m" "m \<le> 12" and d: "1 \<le> d" "d \<le> 31"
    using days_in_month_le [of y m] by (simp_all add: valid_date_def)
  obtain om where om: "dir_m (zfill 2 (str_of_nat m) @ CHR ''-'' # zfill 2 (str_of_nat d))
      = (m, CHR ''-'' # zfill 2 (str_of_nat d)) # om"
    using dir_m_digits [OF m] by blast
  obtain od where od: "dir_d (zfill 2 (str_of_nat d)) = (d, []) # od"
    using dir_d_digits [OF d, of "[]"] by auto
  show ?thesis
    by (simp add: match_ymd_def iso_date_def dir_Y_digits [OF y] om od)
qed

lemma strptime_iso:
  assumes "valid_date y m d"
  shows "strptime (iso_date y m d) = Inr \<lparr>year = y, month = m, day = d\<rparr>"
  using match_ymd_iso [OF assms] assms by (auto simp: strptime_def)

text \<open>What the parser accepts is of the form of \<open>date_texts\<close>.\<close>

lemma digit_of_char:
  assumes "is_digit a"
  shows "a = char_of (48 + digit_val a)" and "digit_val a < 10"
proof -
  from assms have "48 \<le> (of_char a :: nat)" and "(of_char a :: nat) \<le> 57"
    by (simp_all add: is_digit_def Let_def)
  then have "48 + digit_val a = of_char a" and "digit_val a < 10"
    by (simp_all add: digit_val_def)
  then show "a = char_of (48 + digit_val a)" and "digit_val a < 10"
    by simp_all
qed

lemma in_range_is_digit:
  assumes "in_range lo hi a" and "48 \<le> (of_char lo :: nat)" and "(of_char hi :: nat) \<le> 57"
  shows "is_digit a"
  using assms by (simp add: in_range_def is_digit_def)

lemma in_range_bounds:
  assumes "in_range lo hi a" and "48 \<le> (of_char lo :: nat)"
  shows "of_char lo - 48 \<le> digit_val a" and "digit_val a \<le> of_char hi - 48"
  using assms by (auto simp: in_range_def digit_val_def)

lemma lit_elem: "r \<in> set (lit c s) \<Longrightarrow> s = c # r"
  by (cases s) (auto split: if_splits)

lemma two_chars_elem:
  assumes "(v, r) \<in> set (two_chars f g s)"
  obtains a b where "s = a # b # r" and "f a" and "g b" and "v = 10 * digit_val a + digit_val b"
  using assms by (cases "(f, g, s)" rule: two_chars.cases) (auto split: if_splits)

lemma one_char_elem:
  assumes "(v, r) \<in> set (one_char f s)"
  obtains a where "s = a # r" and "f a" and "v = digit_val a"
  using assms by (cases "(f, s)" rule: one_char.cases) (auto split: if_splits)

lemma decimal_step:
  assumes "e < (10::nat)"
  shows "(10 * k + e) div 10 = k" and "(10 * k + e) mod 10 = e"
  using assms by simp_all

lemma split4:
  fixes a b c e :: nat
  assumes "a < 10" and "b < 10" and "c < 10" and "e < 10"
  defines "y \<equiv> 1000 * a + 100 * b + 10 * c + e"
  shows "y div 1000 = a" and "y div 100 mod 10 = b" and "y div 10 mod 10 = c" and "y mod 10 = e"
    and "y < 10000"
proof -
  define k2 where "k2 = 10 * a + b"
  define k1 where "k1 = 10 * k2 + c"
  have y: "y = 10 * k1 + e"
    by (simp add: y_def k1_def k2_def)
  have d1: "y div 10 = k1" and m1: "y mod 10 = e"
    unfolding y using decimal_step [OF assms(4)] by simp_all
  have d2: "k1 div 10 = k2" and m2: "k1 mod 10 = c"
    unfolding k1_def using decimal_step [OF assms(3)] by simp_all
  have d3: "k2 div 10 = a" and m3: "k2 mod 10 = b"
    unfolding k2_def using decimal_step [OF assms(2)] by simp_all
  have "y div 100 = y div 10 div 10" and "y div 1000 = y div 10 div 10 div 10"
    by (simp_all add: div_mult2_eq)
  then show "y div 1000 = a" and "y div 100 mod 10 = b" and "y div 10 mod 10 = c"
    and "y mod 10 = e"
    by (simp_all add: d1 d2 d3 m1 m2 m3)
  show "y < 10000"
    using assms by (simp add: y_def)
qed

lemma dir_Y_elem:
  assumes "(y, r) \<in> set (dir_Y s)"
  shows "s = zfill 4 (str_of_nat y) @ r" and "y < 10000"
proof -
  from assms obtain a b c e where s: "s = a # b # c # e # r"
    and dg: "is_digit a" "is_digit b" "is_digit c" "is_digit e"
    and y: "y = 1000 * digit_val a + 100 * digit_val b + 10 * digit_val c + digit_val e"
    by (cases s rule: dir_Y.cases) (auto split: if_splits)
  note sp = split4 [OF digit_of_char(2) [OF dg(1)] digit_of_char(2) [OF dg(2)]
      digit_of_char(2) [OF dg(3)] digit_of_char(2) [OF dg(4)], folded y]
  show "y < 10000" by (rule sp(5))
  then have "zfill 4 (str_of_nat y) = [a, b, c, e]"
    using digit_of_char(1) [OF dg(1)] digit_of_char(1) [OF dg(2)] digit_of_char(1) [OF dg(3)]
      digit_of_char(1) [OF dg(4)]
    by (simp add: zfill4 sp)
  then show "s = zfill 4 (str_of_nat y) @ r"
    by (simp add: s)
qed

lemma two_digit_text:
  assumes "is_digit a" and "is_digit b"
  shows "zfill 2 (str_of_nat (10 * digit_val a + digit_val b)) = [a, b]"
proof -
  note da = digit_of_char [OF assms(1)] and db = digit_of_char [OF assms(2)]
  have "10 * digit_val a + digit_val b < 100"
    using da(2) db(2) by simp
  from zfill2 [OF this]
  have "zfill 2 (str_of_nat (10 * digit_val a + digit_val b))
        = [char_of (48 + digit_val a), char_of (48 + digit_val b)]"
    unfolding decimal_step [OF db(2)] .
  also have "\<dots> = [a, b]"
    using da(1) db(1) by simp
  finally show ?thesis .
qed

lemma one_digit_text:
  assumes "is_digit a"
  shows "str_of_nat (digit_val a) = [a]"
  using digit_of_char [OF assms] by (simp add: str_of_nat_digit)

lemma dir_m_elem:
  assumes "(m, r) \<in> set (dir_m s)"
  shows "\<exists>mt\<in>set (month_texts m). s = mt @ r" and "1 \<le> m" and "m \<le> 12"
proof -
  from assms consider
      (ten) "(m, r) \<in> set (two_chars (in_range CHR ''1'' CHR ''1'') (in_range CHR ''0'' CHR ''2'') s)"
    | (zero) "(m, r) \<in> set (two_chars (in_range CHR ''0'' CHR ''0'') (in_range CHR ''1'' CHR ''9'') s)"
    | (one) "(m, r) \<in> set (one_char (in_range CHR ''1'' CHR ''9'') s)"
    by (auto simp: dir_m_def)
  then have "(\<exists>mt\<in>set (month_texts m). s = mt @ r) \<and> 1 \<le> m \<and> m \<le> 12"
  proof cases
    case ten
    then obtain a b where s: "s = a # b # r" and a: "in_range CHR ''1'' CHR ''1'' a"
      and b: "in_range CHR ''0'' CHR ''2'' b" and m: "m = 10 * digit_val a + digit_val b"
      by (rule two_chars_elem)
    have "is_digit a" and "is_digit b"
      using a b by (auto intro: in_range_is_digit)
    from two_digit_text [OF this] in_range_bounds [OF a] in_range_bounds [OF b]
    show ?thesis by (simp add: s m month_texts_def)
  next
    case zero
    then obtain a b where s: "s = a # b # r" and a: "in_range CHR ''0'' CHR ''0'' a"
      and b: "in_range CHR ''1'' CHR ''9'' b" and m: "m = 10 * digit_val a + digit_val b"
      by (rule two_chars_elem)
    have "is_digit a" and "is_digit b"
      using a b by (auto intro: in_range_is_digit)
    from two_digit_text [OF this] in_range_bounds [OF a] in_range_bounds [OF b]
    show ?thesis by (simp add: s m month_texts_def)
  next
    case one
    then obtain a where s: "s = a # r" and a: "in_range CHR ''1'' CHR ''9'' a"
      and m: "m = digit_val a"
      by (rule one_char_elem)
    have "is_digit a"
      using a by (auto intro: in_range_is_digit)
    from one_digit_text [OF this] in_range_bounds [OF a]
    show ?thesis by (simp add: s m month_texts_def)
  qed
  then show "\<exists>mt\<in>set (month_texts m). s = mt @ r" and "1 \<le> m" and "m \<le> 12"
    by simp_all
qed

lemma dir_d_elem:
  assumes "(d, r) \<in> set (dir_d s)"
  shows "\<exists>dt\<in>set (day_texts d). s = dt @ r" and "1 \<le> d" and "d \<le> 31"
proof -
  from assms consider
      (thirty) "(d, r) \<in> set (two_chars (in_range CHR ''3'' CHR ''3'') (in_range CHR ''0'' CHR ''1'') s)"
    | (teens) "(d, r) \<in> set (two_chars (in_range CHR ''1'' CHR ''2'') is_digit s)"
    | (zero) "(d, r) \<in> set (two_chars (in_range CHR ''0'' CHR ''0'') (in_range CHR ''1'' CHR ''9'') s)"
    | (one) "(d, r) \<in> set (one_char (in_range CHR ''1'' CHR ''9'') s)"
    | (space) r' where "r' \<in> set (lit CHR '' '' s)"
        and "(d, r) \<in> set (one_char (in_range CHR ''1'' CHR ''9'') r')"
    by (auto simp: dir_d_def)
  then have "(\<exists>dt\<in>set (day_texts d). s = dt @ r) \<and> 1 \<le> d \<and> d \<le> 31"
  proof cases
    case thirty
    then obtain a b where s: "s = a # b # r" and a: "in_range CHR ''3'' CHR ''3'' a"
      and b: "in_range CHR ''0'' CHR ''1'' b" and d: "d = 10 * digit_val a + digit_val b"
      by (rule two_chars_elem)
    have "is_digit a" and "is_digit b"
      using a b by (auto intro: in_range_is_digit)
    from two_digit_text [OF this] in_range_bounds [OF a] in_range_bounds [OF b]
    show ?thesis by (simp add: s d day_texts_def)
  next
    case teens
    then obtain a b where s: "s = a # b # r" and a: "in_range CHR ''1'' CHR ''2'' a"
      and b: "is_digit b" and d: "d = 10 * digit_val a + digit_val b"
      by (rule two_chars_elem)
    have "is_digit a"
      using a by (auto intro: in_range_is_digit)
    from two_digit_text [OF this b] in_range_bounds [OF a] digit_of_char(2) [OF b]
    show ?thesis by (simp add: s d day_texts_def)
  next
    case zero
    then obtain a b where s: "s = a # b # r" and a: "in_range CHR ''0'' CHR ''0'' a"
      and b: "in_range CHR ''1'' CHR ''9'' b" and d: "d = 10 * digit_val a + digit_val b"
      by (rule two_chars_elem)
    have "is_digit a" and "is_digit b"
      using a b by (auto intro: in_range_is_digit)
    from two_digit_text [OF this] in_range_bounds [OF a] in_range_bounds [OF b]
    show ?thesis by (simp add: s d day_texts_def)
  next
    case one
    then obtain a where s: "s = a # r" and a: "in_range CHR ''1'' CHR ''9'' a"
      and d: "d = digit_val a"
      by (rule one_char_elem)
    have "is_digit a"
      using a by (auto intro: in_range_is_digit)
    from one_digit_text [OF this] in_range_bounds [OF a]
    show ?thesis by (simp add: s d day_texts_def)
  next
    case space
    from space(2) obtain a where r': "r' = a # r" and a: "in_range CHR ''1'' CHR ''9'' a"
      and d: "d = digit_val a"
      by (rule one_char_elem)
    have s: "s = CHR '' '' # a # r"
      using lit_elem [OF space(1)] r' by simp
    have "is_digit a"
      using a by (auto intro: in_range_is_digit)
    from one_digit_text [OF this] in_range_bounds [OF a]
    show ?thesis by (simp add: s d day_texts_def)
  qed
  then show "\<exists>dt\<in>set (day_texts d). s = dt @ r" and "1 \<le> d" and "d \<le> 31"
    by simp_all
qed

lemma match_ymd_elem:
  assumes "(y, m, d, r) \<in> set (match_ymd s)"
  shows "\<exists>mt\<in>set (month_texts m). \<exists>dt\<in>set (day_texts d).
           s = zfill 4 (str_of_nat y) @ ''-'' @ mt @ ''-'' @ dt @ r"
proof -
  from assms obtain r1 r2 r3 r4 where Y: "(y, r1) \<in> set (dir_Y s)"
    and h1: "r2 \<in> set (lit CHR ''-'' r1)" and M: "(m, r3) \<in> set (dir_m r2)"
    and h2: "r4 \<in> set (lit CHR ''-'' r3)" and D: "(d, r) \<in> set (dir_d r4)"
    by (auto simp: match_ymd_def)
  from dir_m_elem(1) [OF M] obtain mt where mt: "mt \<in> set (month_texts m)" "r2 = mt @ r3"
    by blast
  from dir_d_elem(1) [OF D] obtain dt where dt: "dt \<in> set (day_texts d)" "r4 = dt @ r"
    by blast
  have "s = zfill 4 (str_of_nat y) @ ''-'' @ mt @ ''-'' @ dt @ r"
    using dir_Y_elem(1) [OF Y] lit_elem [OF h1] lit_elem [OF h2] mt(2) dt(2) by simp
  with mt(1) dt(1) show ?thesis by blast
qed

lemma strptime_date_text:
  assumes "strptime raw = Inr dt"
  shows "raw \<in> set (date_texts (year dt) (month dt) (day dt))"
proof -
  from assms obtain y m d others where h: "match_ymd raw = (y, m, d, []) # others"
    and dt: "dt = \<lparr>year = y, month = m, day = d\<rparr>"
    by (auto simp: strptime_def split: list.splits if_splits)
  then have "(y, m, d, []) \<in> set (match_ymd raw)"
    by simp
  from match_ymd_elem [OF this] show ?thesis
    by (auto simp: date_texts_def dt)
qed

text \<open>Every text of \<open>date_texts\<close> for an existing date is accepted.\<close>

lemma zfill2_two_digits:
  assumes "10 \<le> n" and "n < 100"
  shows "zfill 2 (str_of_nat n) = str_of_nat n"
proof -
  from assms have "n div 10 < 10" by simp
  then have "length (str_of_nat n) = 2"
    using assms(1) by (simp add: str_of_nat_step str_of_nat_digit)
  then show ?thesis
    by (simp add: zfill_def)
qed

lemma not_in_range_hyphen_space:
  "\<not> in_range CHR ''0'' CHR ''2'' CHR ''-''" "\<not> in_range CHR ''1'' CHR ''9'' CHR ''-''"
  "\<not> in_range CHR ''3'' CHR ''3'' CHR '' ''" "\<not> in_range CHR ''1'' CHR ''2'' CHR '' ''"
  "\<not> in_range CHR ''0'' CHR ''0'' CHR '' ''" "\<not> in_range CHR ''1'' CHR ''9'' CHR '' ''"
  by (simp_all add: in_range_def)

lemma dir_m_text:
  assumes "1 \<le> m" and "m \<le> 12" and "mt \<in> set (month_texts m)"
  shows "\<exists>others. dir_m (mt @ CHR ''-'' # rest) = (m, CHR ''-'' # rest) # others"
proof (cases "mt = zfill 2 (str_of_nat m) \<or> 10 \<le> m")
  case True
  with assms have "mt = zfill 2 (str_of_nat m)"
    by (auto simp: month_texts_def zfill2_two_digits)
  with dir_m_digits [OF assms(1,2)] show ?thesis by simp
next
  case False
  with assms have m: "m < 10" and mt: "mt = [char_of (48 + m)]"
    by (auto simp: month_texts_def str_of_nat_digit)
  show ?thesis
    using assms(1)
    by (simp add: mt dir_m_def not_in_range_hyphen_space in_range_digit [OF m] digit_char [OF m])
qed

lemma dir_d_text:
  assumes "1 \<le> d" and "d \<le> 31" and "dt \<in> set (day_texts d)"
  shows "\<exists>others. dir_d dt = (d, []) # others"
proof (cases "dt = zfill 2 (str_of_nat d) \<or> 10 \<le> d")
  case True
  with assms have "dt = zfill 2 (str_of_nat d)"
    by (auto simp: day_texts_def zfill2_two_digits)
  with dir_d_digits [OF assms(1,2), of "[]"] show ?thesis by simp
next
  case False
  with assms have d: "d < 10"
    and dt: "dt = [char_of (48 + d)] \<or> dt = [CHR '' '', char_of (48 + d)]"
    by (auto simp: day_texts_def str_of_nat_digit)
  from dt show ?thesis
    using assms(1)
    by (auto simp: dir_d_def not_in_range_hyphen_space in_range_digit [OF d] digit_char [OF d])
qed

lemma match_ymd_date_text:
  assumes "valid_date y m d" and "raw \<in> set (date_texts y m d)"
  shows "\<exists>others. match_ymd raw = (y, m, d, []) # others"
proof -
  from assms(1) have y: "y < 10000" and m: "1 \<le> m" "m \<le> 12" and d: "1 \<le> d" "d \<le> 31"
    using days_in_month_le [of y m] by (simp_all add: valid_date_def)
  from assms(2) obtain mt dt where mt: "mt \<in> set (month_texts m)"
    and dt: "dt \<in> set (day_texts d)"
    and raw: "raw = zfill 4 (str_of_nat y) @ CHR ''-'' # mt @ CHR ''-'' # dt"
    by (auto simp: date_texts_def)
  obtain om where om: "dir_m (mt @ CHR ''-'' # dt) = (m, CHR ''-'' # dt) # om"
    using dir_m_text [OF m mt] by blast
  obtain od where od: "dir_d dt = (d, []) # od"
    using dir_d_text [OF d dt] by blast
  show ?thesis
    by (simp add: match_ymd_def raw dir_Y_digits [OF y] om od)
qed

lemma strptime_of_date_text:
  assumes "valid_date y m d" and "raw \<in> set (date_texts y m d)"
  shows "strptime raw = Inr \<lparr>year = y, month = m, day = d\<rparr>"
  using match_ymd_date_text [OF assms] assms(1) by (auto simp: strptime_def)

lemma strptime_valid:
  "strptime raw = Inr dt \<Longrightarrow> valid_date (year dt) (month dt) (day dt)"
  by (auto simp: strptime_def split: list.splits if_splits)

lemma strptime_iff:
  "strptime raw = Inr \<lparr>year = y, month = m, day = d\<rparr>
   \<longleftrightarrow> valid_date y m d \<and> raw \<in> set (date_texts y m d)"
proof
  assume p: "strptime raw = Inr \<lparr>year = y, month = m, day = d\<rparr>"
  from strptime_valid [OF p] strptime_date_text [OF p]
  show "valid_date y m d \<and> raw \<in> set (date_texts y m d)"
    by simp
next
  assume "valid_date y m d \<and> raw \<in> set (date_texts y m d)"
  then show "strptime raw = Inr \<lparr>year = y, month = m, day = d\<rparr>"
    by (simp add: strptime_of_date_text)
qed

lemma iso_date_is_date_text: "iso_date y m d \<in> set (date_texts y m d)"
  by (simp add: iso_date_def date_texts_def month_texts_def day_texts_def)

lemma iso_date_in_iso_format:
  assumes "y < 10000" and "m < 100" and "d < 100"
  shows "in_iso_format (iso_date y m d)"
  using assms
  by (simp add: in_iso_format_def iso_date_def zfill4 zfill2 digit_char)

text \<open>
  C8. With a non-empty revision history the version of the title is the version of the
  last entry and the date is derived from the date of the last entry (the reformatted
  date, or the error of parsing it). With an empty history the version is \<open>0.1.0\<close>, the
  date is the marker \<open>\today\<close>, and rendering the history appends nothing. What the title
  shows is built from exactly these two values.
\<close>

theorem version_and_date_of_title:
  "(revision_history cfg \<noteq> [] \<longrightarrow>
      DocumentConfig_version cfg = version (last (revision_history cfg))
      \<and> latest_date zp cfg
          = (case strptime (date (last (revision_history cfg))) of
               Inl e \<Rightarrow> Inl e
             | Inr d \<Rightarrow> Inr (strftime zp d)))
   \<and> (revision_history cfg = [] \<longrightarrow>
      DocumentConfig_version cfg = ''0.1.0''
      \<and> latest_date zp cfg = Inr (bs # ''today'')
      \<and> RevisionEntry_render doc (revision_history cfg) = Inr doc)
   \<and> date_content zp cfg
       = (case latest_date zp cfg of
            Inl e \<Rightarrow> Inl e
          | Inr ld \<Rightarrow>
              Inr (''{'' @ bs # ''large '' @ bs # ''textit{'' @ affiliation cfg @ ''}}'' @ [bs, bs]
                   @ ''[2em]'' @ bs # ''textit{'' @ ld @ ''}'' @ [bs, bs]
                   @ ''[0.5em]'' @ bs # ''textit{Version '' @ DocumentConfig_version cfg @ ''}''))"
  by (simp add: DocumentConfig_version_def latest_date_def RevisionEntry_render_def
      date_content_def)

theorem version_and_date_of_title_witness:
  "DocumentConfig_version
     (sample_config [\<lparr>version = ''1.0'', date = ''2024-01-01'', description = [''init'']\<rparr>,
                     \<lparr>version = ''1.1'', date = ''2024-02-01'', description = [''fix'']\<rparr>])
   = ''1.1''
   \<and> latest_date False
     (sample_config [\<lparr>version = ''1.0'', date = ''2024-01-01'', description = [''init'']\<rparr>,
                     \<lparr>version = ''1.1'', date = ''2024-02-01'', description = [''fix'']\<rparr>])
   = Inr ''February 01, 2024''
   \<and> DocumentConfig_version (sample_config []) = ''0.1.0''
   \<and> latest_date False (sample_config []) = Inr (bs # ''today'')
   \<and> RevisionEntry_render [] (revision_history (sample_config [])) = Inr []"
proof -
  have a: "strptime ''2024-02-01'' = Inr \<lparr>year = 2024, month = 2, day = 1\<rparr>"
    by code_simp
  have b: "strftime False \<lparr>year = 2024, month = 2, day = 1\<rparr> = ''February 01, 2024''"
    by code_simp
  show ?thesis
    using version_and_date_of_title
      [of "sample_config [\<lparr>version = ''1.0'', date = ''2024-01-01'', description = [''init'']\<rparr>,
                          \<lparr>version = ''1.1'', date = ''2024-02-01'', description = [''fix'']\<rparr>]" False]
      version_and_date_of_title [of "sample_config []" False "[]"] a b
    by (simp add: sample_config_def)
qed

text \<open>
  C9. Rendering the revision history of version 1.0 (2024-01-01, "init") and version 1.1
  (2024-02-01, "fix a" and "fix b") appends, between the header and the footer of the
  table, exactly three rows: the row of 1.0, the main row of 1.1 with its first
  description line, and a continuation row for "fix b" whose version and date cells are
  blank.
\<close>

theorem revision_table_rows:
  "render_rows
     [\<lparr>version = ''1.0'', date = ''2024-01-01'', description = [''init'']\<rparr>,
      \<lparr>version = ''1.1'', date = ''2024-02-01'', description = [''fix a'', ''fix b'']\<rparr>] []
   = Inr [''1.0 & 2024-01-01 & init '' @ [bs, bs],
          ''1.1 & 2024-02-01 & fix a '' @ [bs, bs],
          ''& & fix b '' @ [bs, bs]]
  \<and> RevisionEntry_render []
     [\<lparr>version = ''1.0'', date = ''2024-01-01'', description = [''init'']\<rparr>,
      \<lparr>version = ''1.1'', date = ''2024-02-01'', description = [''fix a'', ''fix b'']\<rparr>]
   = Inr (table_header @
         [''1.0 & 2024-01-01 & init '' @ [bs, bs],
          ''1.1 & 2024-02-01 & fix a '' @ [bs, bs],
          ''& & fix b '' @ [bs, bs]] @ table_footer)"
  by code_simp

text \<open>
  C10, as stated, fails: the dates \<open>2024-1-5\<close> and \<open>2024-02- 1\<close> are not in the exact
  format YYYY-MM-DD, and the title date is derived from them without an error.
\<close>

theorem short_date_is_accepted:
  "\<not> in_iso_format ''2024-1-5''
   \<and> latest_date False
       (sample_config [\<lparr>version = ''1.1'', date = ''2024-1-5'', description = [''fix'']\<rparr>])
     = Inr ''January 05, 2024''
   \<and> \<not> in_iso_format ''2024-02- 1''
   \<and> latest_date False
       (sample_config [\<lparr>version = ''1.1'', date = ''2024-02- 1'', description = [''fix'']\<rparr>])
     = Inr ''February 01, 2024''"
  unfolding sample_config_def by code_simp

text \<open>
  C10, amended. With a non-empty revision history, the title date is derived when, and
  only when, the date of the last entry is a text of an existing date (year 1 to 9999)
  as \<open>strptime\<close> reads \<open>%Y-%m-%d\<close>: the year on four digits, a hyphen, the month with or
  without its leading zero, a hyphen, and the day with or without its leading zero or
  with a space in place of it, and nothing else. For every such text the result is the
  name of the month, the day on two digits, a comma and the year. For every last entry
  whose date is no such text, \<open>latest_date\<close> raises \<open>ValueError\<close> and returns no date,
  and so does the building of the title. A date in the exact format YYYY-MM-DD is among
  the texts that are read.
\<close>

theorem latest_date_by_date_text:
  assumes "revision_history cfg \<noteq> []"
  shows "(\<forall>y m d. valid_date y m d
              \<and> date (last (revision_history cfg)) \<in> set (date_texts y m d) \<longrightarrow>
            latest_date zp cfg
              = Inr (month_names ! (m - 1) @ '' '' @ zfill 2 (str_of_nat d) @ '', ''
                     @ (if zp then zfill 4 (str_of_nat y) else str_of_nat y)))
       \<and> (\<not> (\<exists>y m d. valid_date y m d
              \<and> date (last (revision_history cfg)) \<in> set (date_texts y m d)) \<longrightarrow>
            latest_date zp cfg = Inl ValueError \<and> date_content zp cfg = Inl ValueError)
       \<and> (\<forall>y m d. valid_date y m d \<and> date (last (revision_history cfg)) = iso_date y m d \<longrightarrow>
            in_iso_format (date (last (revision_history cfg)))
            \<and> latest_date zp cfg
                = Inr (month_names ! (m - 1) @ '' '' @ zfill 2 (str_of_nat d) @ '', ''
                       @ (if zp then zfill 4 (str_of_nat y) else str_of_nat y)))"
proof -
  let ?raw = "date (last (revision_history cfg))"
  have ok: "latest_date zp cfg
      = Inr (month_names ! (m - 1) @ '' '' @ zfill 2 (str_of_nat d) @ '', ''
             @ (if zp then zfill 4 (str_of_nat y) else str_of_nat y))"
    if "valid_date y m d" and "?raw \<in> set (date_texts y m d)" for y m d
    using strptime_of_date_text [OF that] assms by (simp add: latest_date_def strftime_def)
  have bad: "latest_date zp cfg = Inl ValueError \<and> date_content zp cfg = Inl ValueError"
    if none: "\<not> (\<exists>y m d. valid_date y m d \<and> ?raw \<in> set (date_texts y m d))"
  proof (cases "strptime ?raw")
    case (Inl e)
    then have "e = ValueError"
      by (rule strptime_error)
    with Inl assms show ?thesis
      by (simp add: latest_date_def date_content_def)
  next
    case (Inr dt)
    from strptime_valid [OF Inr] strptime_date_text [OF Inr] none show ?thesis
      by blast
  qed
  have iso: "in_iso_format ?raw"
    if "valid_date y m d" and "?raw = iso_date y m d" for y m d
  proof -
    from that(1) have "y < 10000" and "m < 100" and "d < 100"
      using days_in_month_le [of y m] by (simp_all add: valid_date_def)
    then show ?thesis
      unfolding that(2) by (rule iso_date_in_iso_format)
  qed
  show ?thesis
    using ok bad iso iso_date_is_date_text by metis
qed

text \<open>
  C10 at three histories of one entry: the date \<open>2024-02-01\<close> becomes
  \<open>February 01, 2024\<close>, the date \<open>2024-1-5\<close> becomes \<open>January 05, 2024\<close>, and the date
  \<open>02/01/2024\<close> is no text of a date and raises.
\<close>

theorem latest_date_by_date_text_witness:
  "latest_date False
     (sample_config [\<lparr>version = ''1.1'', date = ''2024-02-01'', description = [''fix'']\<rparr>])
   = Inr ''February 01, 2024''
   \<and> latest_date False
     (sample_config [\<lparr>version = ''1.1'', date = ''2024-1-5'', description = [''fix'']\<rparr>])
   = Inr ''January 05, 2024''
   \<and> latest_date False
     (sample_config [\<lparr>version = ''1.1'', date = ''02/01/2024'', description = [''fix'']\<rparr>])
   = Inl ValueError
   \<and> date_content False
     (sample_config [\<lparr>version = ''1.1'', date = ''02/01/2024'', description = [''fix'']\<rparr>])
   = Inl ValueError"
proof -
  let ?good = "sample_config [\<lparr>version = ''1.1'', date = ''2024-02-01'', description = [''fix'']\<rparr>]"
  let ?short = "sample_config [\<lparr>version = ''1.1'', date = ''2024-1-5'', description = [''fix'']\<rparr>]"
  let ?bad = "sample_config [\<lparr>version = ''1.1'', date = ''02/01/2024'', description = [''fix'']\<rparr>]"
  have g: "revision_history ?good \<noteq> []" and s: "revision_history ?short \<noteq> []"
    and b: "revision_history ?bad \<noteq> []"
    by (simp_all add: sample_config_def)
  have v: "valid_date 2024 2 1" "valid_date 2024 1 5"
    by (simp_all add: valid_date_def days_in_month_def is_leap_def)
  have tg: "date (last (revision_history ?good)) \<in> set (date_texts 2024 2 1)"
    unfolding sample_config_def by code_simp
  have ts: "date (last (revision_history ?short)) \<in> set (date_texts 2024 1 5)"
    unfolding sample_config_def by code_simp
  have f: "month_names ! (2 - 1) @ '' '' @ zfill 2 (str_of_nat 1) @ '', '' @ str_of_nat 2024
           = ''February 01, 2024''"
    "month_names ! (1 - 1) @ '' '' @ zfill 2 (str_of_nat 5) @ '', '' @ str_of_nat 2024
           = ''January 05, 2024''"
    by code_simp+
  have e: "strptime (date (last (revision_history ?bad))) = Inl ValueError"
    unfolding sample_config_def by code_simp
  have none: "\<not> (\<exists>y m d. valid_date y m d
      \<and> date (last (revision_history ?bad)) \<in> set (date_texts y m d))"
  proof
    assume "\<exists>y m d. valid_date y m d \<and> date (last (revision_history ?bad)) \<in> set (date_texts y m d)"
    then obtain y m d where "valid_date y m d"
      and "date (last (revision_history ?bad)) \<in> set (date_texts y m d)"
      by blast
    from strptime_of_date_text [OF this] e show False
      by simp
  qed
  from latest_date_by_date_text [OF g, of False, THEN conjunct1, rule_format, of 2024 2 1] v(1) tg
  have 1: "latest_date False ?good = Inr ''February 01, 2024''"
    using f(1) by simp
  from latest_date_by_date_text [OF s, of False, THEN conjunct1, rule_format, of 2024 1 5] v(2) ts
  have 2: "latest_date False ?short = Inr ''January 05, 2024''"
    using f(2) by simp
  from latest_date_by_date_text [OF b, of False, THEN conjunct2, THEN conjunct1, rule_format,
      OF none]
  have 3: "latest_date False ?bad = Inl ValueError \<and> date_content False ?bad = Inl ValueError" .
  from 1 2 3 show ?thesis by simp
qed

end
